theory Spec2Isabelle
  imports Complex_Main
begin

section \<open>Wire messages\<close>

text \<open>
  The client of \<^verbatim>\<open>src/packages/http/tests/module.spec.ts\<close> (lines 179 to 686: the classes
  \<^verbatim>\<open>MessageSubject\<close> and \<^verbatim>\<open>SocketClient\<close>) is event driven: JavaScript runs every socket
  handler and every continuation of a promise to completion before the next one starts.
  The embedding therefore passes one state record through the handlers; what a promise
  still has to do when it settles is kept in the state as data (a continuation), and the
  calls to the socket, to the console and to the observers are kept as logs.

  Application values are opaque for the client; the constructors other than \<open>Plain\<close> and
  \<open>Arr\<close> name the codec function that was applied. JavaScript numbers count exactly far
  beyond any number of messages a connection can carry, so counters are natural numbers.
\<close>

datatype val = Undefined | Plain string | Arr "val list" | NewDate val
  | ClassToPlain string val | PartialClassToPlain string val
  | PlainToClass string val | PartialPlainToClass string val

record action_type =
  type_name :: string
  entityName :: "string option"
  partial :: bool

record action_types =
  parameters :: "action_type list"
  returnType :: action_type

datatype return_type = RSubject | REntity | RObservable | RCollection | ROther

text \<open>The frames of the server: the \<open>type\<close> discriminant with its payload; the \<open>id\<close> is
  the first component of a \<open>server_message\<close>.\<close>

datatype server_body =
    EntityRemove string nat
  | EntityPatch string nat val
  | EntityUpdate string nat val
  | EntityRemoveMany string "nat list"
  | Channel
  | TypeFrame return_type val "string option" "(nat \<times> val) option"
  | NextJson val
  | NextObservable nat val
  | NextSubject val
  | NextCollection val
  | Complete
  | ErrorFrame string
  | ErrorObservable nat string
  | CompleteObservable nat
  | ActionTypesResult "action_type list" action_type
  | AuthenticateResult bool
  | OtherFrame string

type_synonym server_message = "nat \<times> server_body"

datatype client_body =
    Action string string "val list"
  | ActionTypes string string
  | Authenticate "string option"
  | EntityUnsubscribe
  | ObservableSubscribe nat
  | ObservableUnsubscribe nat
  | CollectionUnsubscribe

type_synonym client_message = "nat \<times> client_body"

section \<open>Plain objects and their prototype chain\<close>

text \<open>
  The cache \<open>cachedActionsTypes\<close> is a plain object of plain objects, and JavaScript
  reads a property of an object through its prototype chain: a controller or action
  name that \<open>Object.prototype\<close> defines, such as \<open>toString\<close> or \<open>constructor\<close>, is found
  in an empty cache. The objects that a read of the cache can reach are the cache itself,
  the objects that \<open>getActionTypes\<close> creates (\<open>Created controller\<close> at line 376, and for
  the call \<open>c\<close> that received the types \<open>TypesObject c\<close> with its two property values at
  line 389), and the builtin objects on their prototype chains: \<open>Object.prototype\<close>,
  \<open>Function.prototype\<close> and the builtin functions, which are named as ECMAScript names
  them (\<open>Object\<close>, \<open>Object.keys\<close>, \<open>Object.prototype.toString\<close>).
\<close>

datatype obj =
    CachedActionsTypes
  | Created string
  | TypesObject nat
  | ParametersOf nat
  | ReturnTypeOf nat
  | ObjectPrototype
  | FunctionPrototype
  | Builtin string

datatype jsval = JUndefined | JNull | JNumber nat | JString string | JObject obj

text \<open>A property is a data property with its value and its attribute \<open>writable\<close>, or
  the accessor pair that throws a \<open>TypeError\<close> (\<open>caller\<close> and \<open>arguments\<close> of
  \<open>Function.prototype\<close>), or the accessor \<open>__proto__\<close> of \<open>Object.prototype\<close>.\<close>

datatype property = Data jsval bool | Poison | ProtoAccessor

type_synonym heap = "obj \<Rightarrow> string \<rightharpoonup> property"

section \<open>Errors, outcomes of promises, continuations\<close>

datatype error =
    CouldNotConnect
  | AuthorizationError
  | SocketNotCreated
  | InvalidMessage
  | RemoteError string
  | InvalidMessageReturned
  | EntityNotKnown "string option"
  | InvalidEntityReferenced string
  | TypeError
  | EmptyError

datatype result =
    RVoid
  | RReply server_message
  | RTypes action_types
  | RCached jsval
  | RValue val
  | RStreamBehaviorSubject
  | REntitySubject "(string \<times> nat) option"
  | RObservableValue
  | RCollectionValue

datatype outcome = Resolved result | Rejected error

text \<open>What follows a call of \<open>connect()\<close>: \<open>sendMessage\<close> sends its frame or hands the
  error to its subject; an outside caller just sees its promise settle.\<close>

datatype cont = ThenSend client_message nat | ThenCaller nat

text \<open>Who awaits \<open>firstAndClose()\<close>: \<open>authenticate\<close> inside the \<open>onopen\<close> handler of a
  connection attempt, \<open>getActionTypes\<close> on behalf of a call, or an outside caller.\<close>

datatype ksub = KCaller | KAuthenticate nat | KActionTypes string string nat

datatype subscriber = NoSubscriber | FirstAndClose ksub | StreamSub nat

datatype log_entry = NoRepliesCallback nat | Unhandled error

section \<open>Reading and assigning properties\<close>

text \<open>
  The builtin functions with the value of their property \<open>length\<close>: the methods of
  \<open>Object.prototype\<close>, the functions that \<open>Object\<close> holds, and the methods of
  \<open>Function.prototype\<close> (ECMAScript 2019 with its annex B).
\<close>

definition objectPrototypeFunctions :: "(string \<times> nat) list" where
  "objectPrototypeFunctions =
     [(''__defineGetter__'', 2), (''__defineSetter__'', 2), (''hasOwnProperty'', 1),
      (''__lookupGetter__'', 1), (''__lookupSetter__'', 1), (''isPrototypeOf'', 1),
      (''propertyIsEnumerable'', 1), (''toString'', 0), (''valueOf'', 0),
      (''toLocaleString'', 0)]"

definition objectFunctions :: "(string \<times> nat) list" where
  "objectFunctions =
     [(''assign'', 2), (''create'', 2), (''defineProperties'', 2), (''defineProperty'', 3),
      (''entries'', 1), (''freeze'', 1), (''fromEntries'', 1),
      (''getOwnPropertyDescriptor'', 2), (''getOwnPropertyDescriptors'', 1),
      (''getOwnPropertyNames'', 1), (''getOwnPropertySymbols'', 1), (''getPrototypeOf'', 1),
      (''is'', 2), (''isExtensible'', 1), (''isFrozen'', 1), (''isSealed'', 1), (''keys'', 1),
      (''preventExtensions'', 1), (''seal'', 1), (''setPrototypeOf'', 2), (''values'', 1)]"

definition functionPrototypeFunctions :: "(string \<times> nat) list" where
  "functionPrototypeFunctions = [(''apply'', 2), (''bind'', 1), (''call'', 1), (''toString'', 0)]"

text \<open>The property under which an object holds one of its functions, and the own
  properties \<open>length\<close> and \<open>name\<close> of a function; neither of the two is writable.\<close>

definition holds :: "string \<Rightarrow> string \<times> nat \<Rightarrow> string \<times> property" where
  "holds owner f = (fst f, Data (JObject (Builtin (owner @ fst f))) True)"

definition functionProperties :: "string \<Rightarrow> nat \<Rightarrow> (string \<times> property) list" where
  "functionProperties n k =
     [(''length'', Data (JNumber k) False), (''name'', Data (JString n) False)]"

definition builtinFunctions :: "(string \<times> string \<times> nat) list" where
  "builtinFunctions =
     map (\<lambda>f. (''Object.prototype.'' @ fst f, f)) objectPrototypeFunctions
     @ map (\<lambda>f. (''Object.'' @ fst f, f)) objectFunctions
     @ map (\<lambda>f. (''Function.prototype.'' @ fst f, f)) functionPrototypeFunctions"

text \<open>The own properties of the objects before the client has assigned anything.\<close>

definition builtins :: heap where
  "builtins x =
     (case x of
        ObjectPrototype \<Rightarrow>
          map_of ((''constructor'', Data (JObject (Builtin ''Object'')) True)
                  # (''__proto__'', ProtoAccessor)
                  # map (holds ''Object.prototype.'') objectPrototypeFunctions)
      | FunctionPrototype \<Rightarrow>
          map_of (functionProperties [] 0
                  @ [(''arguments'', Poison), (''caller'', Poison),
                     (''constructor'', Data (JObject (Builtin ''Function'')) True)]
                  @ map (holds ''Function.prototype.'') functionPrototypeFunctions)
      | Builtin q \<Rightarrow>
          if q = ''Object'' then
            map_of (functionProperties ''Object'' 1
                    @ (''prototype'', Data (JObject ObjectPrototype) False)
                    # map (holds ''Object.'') objectFunctions)
          else if q = ''Function'' then
            map_of (functionProperties ''Function'' 1
                    @ [(''prototype'', Data (JObject FunctionPrototype) False)])
          else
            (case map_of builtinFunctions q of
               None \<Rightarrow> Map.empty
             | Some f \<Rightarrow> map_of (functionProperties (fst f) (snd f)))
      | _ \<Rightarrow> Map.empty)"

text \<open>
  The prototype of an object. A function has \<open>Function.prototype\<close>, and every other
  object of the model \<open>Object.prototype\<close>: for the array of the parameters that skips
  \<open>Array.prototype\<close>, and for a number or a string the wrapper prototype is skipped
  likewise. Of these values the client reads the properties \<open>parameters\<close> and
  \<open>returnType\<close> only (in \<open>stream\<close>), which neither an array, nor a type description, nor
  any of the skipped prototypes defines.
\<close>

fun prototypeOf :: "obj \<Rightarrow> obj option" where
  "prototypeOf ObjectPrototype = None"
| "prototypeOf (Builtin q) = Some FunctionPrototype"
| "prototypeOf x = Some ObjectPrototype"

text \<open>The property that an object has under a name, its own or an inherited one; no
  chain is longer than three objects.\<close>

definition inherited :: "heap \<Rightarrow> obj option \<Rightarrow> string \<Rightarrow> property option" where
  "inherited h x n =
     (case x of
        None \<Rightarrow> None
      | Some p \<Rightarrow>
          (case h p n of
             Some y \<Rightarrow> Some y
           | None \<Rightarrow>
               (case prototypeOf p of
                  None \<Rightarrow> None
                | Some q \<Rightarrow> h q n)))"

definition lookup :: "heap \<Rightarrow> obj \<Rightarrow> string \<Rightarrow> property option" where
  "lookup h x n =
     (case h x n of
        Some y \<Rightarrow> Some y
      | None \<Rightarrow> inherited h (prototypeOf x) n)"

text \<open>The value of a property that was found for the receiver \<open>v\<close>.\<close>

definition propertyValue :: "jsval \<Rightarrow> property option \<Rightarrow> error + jsval" where
  "propertyValue v y =
     (case y of
        None \<Rightarrow> Inr JUndefined
      | Some (Data x w) \<Rightarrow> Inr x
      | Some Poison \<Rightarrow> Inl TypeError
      | Some ProtoAccessor \<Rightarrow>
          (case v of
             JObject x \<Rightarrow> Inr (case prototypeOf x of None \<Rightarrow> JNull | Some p \<Rightarrow> JObject p)
           | _ \<Rightarrow> Inr (JObject ObjectPrototype)))"

text \<open>The expression \<open>v[n]\<close>: reading from \<open>undefined\<close> or \<open>null\<close> throws.\<close>

definition js_get :: "heap \<Rightarrow> jsval \<Rightarrow> string \<Rightarrow> error + jsval" where
  "js_get h v n =
     (case v of
        JUndefined \<Rightarrow> Inl TypeError
      | JNull \<Rightarrow> Inl TypeError
      | JObject x \<Rightarrow> propertyValue v (lookup h x n)
      | _ \<Rightarrow> propertyValue v (inherited h (Some ObjectPrototype) n))"

text \<open>
  The assignment \<open>v[n] = x\<close> in strict code (a TypeScript module). It creates or
  overwrites an own data property of the receiver, unless the property that the receiver
  has under the name is not writable or is an accessor that throws. \<open>Object.prototype\<close>
  refuses a new prototype. The setter \<open>__proto__\<close> of another object would exchange its
  prototype; the client never gets there, because it assigns only where it has read a
  falsy value, and \<open>__proto__\<close> of these objects is an object. Nothing can be assigned
  to a property of a value that is not an object.
\<close>

definition js_set :: "jsval \<Rightarrow> string \<Rightarrow> jsval \<Rightarrow> heap \<Rightarrow> error + heap" where
  "js_set v n x h =
     (case v of
        JObject r \<Rightarrow>
          (case lookup h r n of
             None \<Rightarrow> Inr (h(r := (h r)(n \<mapsto> Data x True)))
           | Some (Data y w) \<Rightarrow>
               if w then Inr (h(r := (h r)(n \<mapsto> Data x True))) else Inl TypeError
           | Some Poison \<Rightarrow> Inl TypeError
           | Some ProtoAccessor \<Rightarrow> if r = ObjectPrototype then Inl TypeError else Inr h)
      | _ \<Rightarrow> Inl TypeError)"

definition js_truthy :: "jsval \<Rightarrow> bool" where
  "js_truthy v =
     (case v of
        JUndefined \<Rightarrow> False
      | JNull \<Rightarrow> False
      | JNumber n \<Rightarrow> n \<noteq> 0
      | JString x \<Rightarrow> x \<noteq> []
      | JObject x \<Rightarrow> True)"

text \<open>The name of the property that an array has for an index.\<close>

definition digit :: "nat \<Rightarrow> char" where
  "digit n = ''0123456789'' ! n"

function decimal :: "nat \<Rightarrow> string" where
  "decimal n = (if n < 10 then [digit n] else decimal (n div 10) @ [digit (n mod 10)])"
  by pat_completeness auto

termination decimal
  by (relation "measure (\<lambda>n. n)") auto

declare decimal.simps [simp del]

text \<open>
  What \<open>stream\<close> reads of a type description \<open>typ\<close> that is not part of a types object of
  line 389: \<open>typ.type\<close>, which throws when \<open>typ\<close> is \<open>undefined\<close>, and for the type
  \<open>Entity\<close> also \<open>typ.entityName\<close> and \<open>typ.partial\<close>. A value that is no string equals
  neither \<open>'Date'\<close> nor \<open>'Entity'\<close>.
\<close>

definition entityKey :: "jsval \<Rightarrow> string option" where
  "entityKey v =
     (case v of
        JUndefined \<Rightarrow> None
      | JNull \<Rightarrow> Some ''null''
      | JNumber n \<Rightarrow> Some (decimal n)
      | JString x \<Rightarrow> Some x
      | JObject x \<Rightarrow> Some ''[object Object]'')"

definition typeView :: "heap \<Rightarrow> jsval \<Rightarrow> error + action_type" where
  "typeView h typ =
     (case js_get h typ ''type'' of
        Inl e \<Rightarrow> Inl e
      | Inr (JString t) \<Rightarrow>
          if t = ''Entity'' then
            (case js_get h typ ''entityName'' of
               Inl e \<Rightarrow> Inl e
             | Inr en \<Rightarrow>
                 (case js_get h typ ''partial'' of
                    Inl e \<Rightarrow> Inl e
                  | Inr pa \<Rightarrow>
                      Inr \<lparr>type_name = t,
                           entityName = (if js_truthy en then entityKey en else None),
                           partial = js_truthy pa\<rparr>))
          else Inr \<lparr>type_name = t, entityName = None, partial = False\<rparr>
      | Inr _ \<Rightarrow> Inr \<lparr>type_name = [], entityName = None, partial = False\<rparr>)"

text \<open>\<open>types.parameters[i]\<close> and \<open>types.returnType\<close> for such a value \<open>types\<close>.\<close>

definition parameterAt :: "heap \<Rightarrow> jsval \<Rightarrow> nat \<Rightarrow> error + action_type" where
  "parameterAt h types i =
     (case js_get h types ''parameters'' of
        Inl e \<Rightarrow> Inl e
      | Inr ps \<Rightarrow>
          (case js_get h ps (decimal i) of
             Inl e \<Rightarrow> Inl e
           | Inr typ \<Rightarrow> typeView h typ))"

definition returnTypeOf :: "heap \<Rightarrow> jsval \<Rightarrow> error + action_type" where
  "returnTypeOf h types =
     (case js_get h types ''returnType'' of
        Inl e \<Rightarrow> Inl e
      | Inr typ \<Rightarrow> typeView h typ)"

section \<open>The objects on the heap\<close>

text \<open>
  A \<open>MessageSubject\<close>. \<open>teardown\<close> is the key that its teardown closure
  \<^verbatim>\<open>() => { delete this.replies[messageId] }\<close> has captured. \<open>isStopped\<close> and \<open>thrownError\<close> are
  the fields of the rxjs \<open>Subject\<close> it extends. Every subject of this client gets its only
  subscription where it is created, so one slot holds the observer. \<open>emitted\<close> lists the
  values the subject passed on, \<open>promise\<close> is the promise \<open>firstAndClose\<close> returned, and
  \<open>tornDown\<close> counts the runs of the teardown, as the flag \<open>closeCalled\<close> of the unit test
  does.
\<close>

record message_subject =
  teardown :: nat
  isStopped :: bool
  thrownError :: "error option"
  observer :: subscriber
  emitted :: "server_message list"
  promise :: "outcome option"
  tornDown :: nat

datatype status = Live | Completed | Failed error

record behavior_subject =
  bs_values :: "val list"
  bs_status :: status

record collection =
  col_class :: string
  col_id :: nat
  col_next :: "val list"
  col_status :: status
  col_registered :: bool

datatype return_value = NoValue | AnObservable nat | ACollection collection

text \<open>An observer of the \<open>Observable\<close> that \<open>stream\<close> returned: \<open>ob_closed\<close> after the
  application has unsubscribed, and \<open>ob_reply\<close> the \<open>reply.id\<close> that its teardown has
  captured.\<close>

record user_observer =
  ob_closed :: bool
  ob_got :: "val list"
  ob_status :: status
  ob_reply :: nat

text \<open>The local variables of one run of \<open>stream\<close>, which its reply callback closes over.
  The variable \<open>types\<close> is \<open>s_types\<close> when \<open>getActionTypes\<close> returned a types object of
  line 389, and \<open>s_inherited\<close> when it returned another value of the cache.\<close>

record stream_call =
  s_controller :: string
  s_name :: string
  s_args :: "val list"
  s_types :: "action_types option"
  s_inherited :: "jsval option"
  s_subject :: "nat option"
  returnValue :: return_value
  streamBehaviorSubject :: "behavior_subject option"
  subscribers :: "nat \<rightharpoonup> user_observer"
  subscriberIdCounter :: nat
  unsubscribed :: "(nat \<times> user_observer) list"

text \<open>
  Modelled from the spec: the classes \<open>EntityState\<close> (\<^verbatim>\<open>./entity-state\<close>) and
  \<open>EntitySubject\<close>, which \<open>stream\<close> calls, are not among the sources. Following sections 3
  and 4.5 of the specification, the store maps (entity kind, primary key) to one mirror,
  which holds the last known item, its holders and the teardowns added to it; each of
  these teardowns sends one frame.
\<close>

record mirror =
  m_item :: val
  m_removed :: bool
  m_holders :: nat
  m_tearDowns :: "client_message list"

record client =
  token :: "string option"
  RegisteredEntities :: "string list"
  socket :: "nat option"
  connected :: bool
  loggedIn :: bool
  messageId :: nat
  connectionTries :: nat
  replies :: "nat \<rightharpoonup> nat"
  connectionPromise :: "(nat \<times> cont list) option"
  entityState :: "(string \<times> nat) \<rightharpoonup> mirror"
  objects :: heap
  typesObjects :: "nat \<rightharpoonup> action_types"
  subjects :: "nat \<rightharpoonup> message_subject"
  streams :: "nat \<rightharpoonup> stream_call"
  outcomes :: "nat \<rightharpoonup> outcome"
  nextCall :: nat
  socketCounter :: nat
  jobs :: "cont list"
  sent :: "(nat \<times> client_message) list"
  logged :: "log_entry list"

text \<open>
  Beyond the fields of \<open>SocketClient\<close> the record holds the heap (\<open>subjects\<close>, \<open>streams\<close>,
  the promises of outside callers in \<open>outcomes\<close>), the own properties of the objects
  around the cache (\<open>objects\<close>, where the field \<open>cachedActionsTypes\<close> is the object
  \<open>CachedActionsTypes\<close>) with the content of the types objects (\<open>typesObjects\<close>), the
  registry \<open>RegisteredEntities\<close> that the client imports, as the list of the names
  registered in it, the number of sockets created so far
  (a socket is named by its number, and so is the promise of the \<open>doConnect\<close> that created
  it), the continuations that are due in the current turn (\<open>jobs\<close>), every
  \<open>socket.send\<close> with the socket it went to (\<open>sent\<close>), and what went to the console or
  stayed unhandled (\<open>logged\<close>).
\<close>

definition init :: "string option \<Rightarrow> string list \<Rightarrow> client" where
  "init tok regs =
     \<lparr>token = tok, RegisteredEntities = regs, socket = None, connected = False,
      loggedIn = False, messageId = 0, connectionTries = 0, replies = Map.empty,
      connectionPromise = None, entityState = Map.empty, objects = builtins,
      typesObjects = Map.empty,
      subjects = Map.empty, streams = Map.empty, outcomes = Map.empty, nextCall = 0,
      socketCounter = 0, jobs = [], sent = [], logged = []\<rparr>"

text \<open>\<open>if (this.config.token)\<close>: the token is \<open>undefined\<close> by default, and the empty string
  is falsy as well.\<close>

definition truthy :: "string option \<Rightarrow> bool" where
  "truthy t = (case t of None \<Rightarrow> False | Some x \<Rightarrow> x \<noteq> [])"

section \<open>Sending, promises, subjects\<close>

definition send :: "client_message \<Rightarrow> client \<Rightarrow> error + client" where
  "send message s =
     (case socket s of
        None \<Rightarrow> Inl SocketNotCreated
      | Some k \<Rightarrow> Inr (s\<lparr>sent := sent s @ [(k, message)]\<rparr>))"

text \<open>A promise settles once: a later \<open>resolve\<close> or \<open>reject\<close> is ignored.\<close>

definition settle :: "nat \<Rightarrow> outcome \<Rightarrow> client \<Rightarrow> client" where
  "settle c out s =
     (case outcomes s c of
        None \<Rightarrow> s\<lparr>outcomes := (outcomes s)(c \<mapsto> out)\<rparr>
      | Some _ \<Rightarrow> s)"

definition new_call :: "client \<Rightarrow> nat \<times> client" where
  "new_call s =
     (nextCall s, s\<lparr>nextCall := nextCall s + 1, outcomes := (outcomes s)(nextCall s := None)\<rparr>)"

definition upd_subject :: "nat \<Rightarrow> (message_subject \<Rightarrow> message_subject) \<Rightarrow> client \<Rightarrow> client" where
  "upd_subject sid f s =
     (case subjects s sid of
        None \<Rightarrow> s
      | Some sub \<Rightarrow> s\<lparr>subjects := (subjects s)(sid \<mapsto> f sub)\<rparr>)"

text \<open>\<open>upd_subject\<close> writes a field of a subject on the heap; \<open>noteTearDown\<close> counts one
  run of its teardown.\<close>

definition noteTearDown :: "nat \<Rightarrow> client \<Rightarrow> client" where
  "noteTearDown sid s = upd_subject sid (\<lambda>sub. sub\<lparr>tornDown := tornDown sub + 1\<rparr>) s"

text \<open>\<open>tearDown(this.teardown)\<close> calls the closure: the routing entry goes.\<close>

definition tearDown :: "nat \<Rightarrow> client \<Rightarrow> client" where
  "tearDown sid s =
     (case subjects s sid of
        None \<Rightarrow> s
      | Some sub \<Rightarrow> noteTearDown sid (s\<lparr>replies := (replies s)(teardown sub := None)\<rparr>))"

text \<open>The awaiting function goes on with a rejection: \<open>authenticate\<close> throws inside the
  \<open>onopen\<close> handler, where nobody catches; \<open>getActionTypes\<close> rejects the call behind it.\<close>

fun fail_k :: "ksub \<Rightarrow> error \<Rightarrow> client \<Rightarrow> client" where
  "fail_k KCaller e s = s"
| "fail_k (KAuthenticate p) e s = s\<lparr>logged := logged s @ [Unhandled e]\<rparr>"
| "fail_k (KActionTypes ctrl act c) e s = settle c (Rejected e) s"

text \<open>
  \<open>complete()\<close> of the rxjs subject. An observer from \<open>firstAndClose\<close> that has seen no
  value yet fails with \<open>EmptyError\<close> (the operator \<open>first()\<close>), which rejects the promise
  and, through the added teardown, calls \<open>close()\<close> once more; that inner \<open>close\<close> finds
  the subject stopped and without observers. The callback of \<open>stream\<close> has no handler for
  completion.
\<close>

definition complete :: "nat \<Rightarrow> client \<Rightarrow> client" where
  "complete sid s =
     (case subjects s sid of
        None \<Rightarrow> s
      | Some sub \<Rightarrow>
          (case observer sub of
             FirstAndClose k \<Rightarrow>
               fail_k k EmptyError
                 (tearDown sid
                    (upd_subject sid
                       (\<lambda>x. x\<lparr>isStopped := True, observer := NoSubscriber,
                              promise := Some (Rejected EmptyError)\<rparr>) s))
           | _ \<Rightarrow> upd_subject sid (\<lambda>x. x\<lparr>isStopped := True, observer := NoSubscriber\<rparr>) s))"

definition close :: "nat \<Rightarrow> client \<Rightarrow> client" where
  "close sid s = complete sid (tearDown sid s)"

text \<open>
  \<open>subject.error(e)\<close>: nothing on a stopped subject. The observer of \<open>firstAndClose\<close>
  rejects the promise and its teardown closes the subject; the callback of \<open>stream\<close> has
  no error handler, so the error stays unhandled.
\<close>

definition subject_error :: "nat \<Rightarrow> error \<Rightarrow> client \<Rightarrow> client" where
  "subject_error sid e s =
     (case subjects s sid of
        None \<Rightarrow> s
      | Some sub \<Rightarrow>
          if isStopped sub then s
          else
            (case observer sub of
               NoSubscriber \<Rightarrow>
                 upd_subject sid (\<lambda>x. x\<lparr>isStopped := True, thrownError := Some e\<rparr>) s
             | FirstAndClose k \<Rightarrow>
                 fail_k k e
                   (tearDown sid
                      (upd_subject sid
                         (\<lambda>x. x\<lparr>isStopped := True, thrownError := Some e,
                                observer := NoSubscriber, promise := Some (Rejected e)\<rparr>) s))
             | StreamSub c \<Rightarrow>
                 (upd_subject sid
                    (\<lambda>x. x\<lparr>isStopped := True, thrownError := Some e, observer := NoSubscriber\<rparr>) s)
                 \<lparr>logged := logged s @ [Unhandled e]\<rparr>))"

section \<open>Connecting\<close>

text \<open>\<open>doConnect\<close> counts the try and creates the socket; the promise it returns is named
  by the socket. Its handlers \<open>onerror\<close> and \<open>onopen\<close> follow below.\<close>

definition doConnect :: "client \<Rightarrow> nat \<times> client" where
  "doConnect s =
     (socketCounter s,
      s\<lparr>connectionTries := connectionTries s + 1,
        socket := Some (socketCounter s),
        socketCounter := socketCounter s + 1\<rparr>)"

text \<open>
  \<open>connect()\<close> with what its caller does next. While a promise is stored the caller
  waits for it; when the client is connected the call returns, and the caller goes on in
  the same turn; otherwise the caller starts an attempt and waits for it as the first of
  its waiters.
\<close>

definition connect :: "cont \<Rightarrow> client \<Rightarrow> client" where
  "connect k s =
     (case connectionPromise s of
        Some (p, ws) \<Rightarrow> s\<lparr>connectionPromise := Some (p, ws @ [k])\<rparr>
      | None \<Rightarrow>
          if connected s then s\<lparr>jobs := jobs s @ [k]\<rparr>
          else (let (p, s') = doConnect s in s'\<lparr>connectionPromise := Some (p, [k])\<rparr>))"

definition sendMessage :: "client_body \<Rightarrow> client \<Rightarrow> nat \<times> client" where
  "sendMessage messageWithoutId s =
     (let s1 = s\<lparr>messageId := messageId s + 1\<rparr>;
          messageId' = messageId s1;
          message = (messageId', messageWithoutId);
          subject = \<lparr>teardown = messageId', isStopped = False, thrownError = None,
                     observer = NoSubscriber, emitted = [], promise = None, tornDown = 0\<rparr>;
          s2 = s1\<lparr>subjects := (subjects s1)(messageId' \<mapsto> subject)\<rparr>;
          s3 = s2\<lparr>replies := (replies s2)(messageId' \<mapsto> messageId')\<rparr>
      in (messageId', connect (ThenSend message messageId') s3))"

text \<open>\<open>firstAndClose\<close> subscribes; a subject that is already stopped answers at once.\<close>

definition firstAndClose :: "nat \<Rightarrow> ksub \<Rightarrow> client \<Rightarrow> client" where
  "firstAndClose sid k s =
     (case subjects s sid of
        None \<Rightarrow> s
      | Some sub \<Rightarrow>
          if isStopped sub then
            (let e = (case thrownError sub of None \<Rightarrow> EmptyError | Some x \<Rightarrow> x)
             in fail_k k e (tearDown sid (upd_subject sid (\<lambda>x. x\<lparr>promise := Some (Rejected e)\<rparr>) s)))
          else upd_subject sid (\<lambda>x. x\<lparr>observer := FirstAndClose k, promise := None\<rparr>) s)"

text \<open>The caller of \<open>connect()\<close> goes on: with the frame, or with the error.\<close>

fun run_cont :: "error option \<Rightarrow> cont \<Rightarrow> client \<Rightarrow> client" where
  "run_cont None (ThenSend message sid) s =
     (case send message s of
        Inl e \<Rightarrow> s\<lparr>logged := logged s @ [Unhandled e]\<rparr>
      | Inr s' \<Rightarrow> s')"
| "run_cont (Some e) (ThenSend message sid) s = subject_error sid e s"
| "run_cont None (ThenCaller c) s = settle c (Resolved RVoid) s"
| "run_cont (Some e) (ThenCaller c) s = settle c (Rejected e) s"

text \<open>A waiter inside the loop of \<open>connect()\<close>: a rejection is thrown on to its caller;
  after a resolution the loop ends, because the promise is deleted, and the rest of
  \<open>connect()\<close> runs.\<close>

fun resume_waiter :: "error option \<Rightarrow> cont \<Rightarrow> client \<Rightarrow> client" where
  "resume_waiter None k s = connect k s"
| "resume_waiter (Some e) k s = run_cont (Some e) k s"

text \<open>
  The promise of attempt \<open>p\<close> settles (\<open>None\<close>: resolved). Its first waiter is the call of
  \<open>connect()\<close> that created it, whose \<open>finally\<close> deletes the stored promise. Settling a
  promise that has settled before does nothing.
\<close>

definition settle_connection :: "nat \<Rightarrow> error option \<Rightarrow> client \<Rightarrow> client" where
  "settle_connection p r s =
     (case connectionPromise s of
        None \<Rightarrow> s
      | Some (q, ws) \<Rightarrow>
          if p \<noteq> q then s
          else
            (case ws of
               [] \<Rightarrow> s\<lparr>connectionPromise := None\<rparr>
             | k # ks \<Rightarrow>
                 foldl (\<lambda>t w. resume_waiter r w t)
                   (run_cont r k (s\<lparr>connectionPromise := None\<rparr>)) ks))"

definition run_jobs :: "client \<Rightarrow> client" where
  "run_jobs s = foldl (\<lambda>t k. run_cont None k t) (s\<lparr>jobs := []\<rparr>) (jobs s)"

definition open_done :: "nat \<Rightarrow> client \<Rightarrow> client" where
  "open_done p s = settle_connection p None (s\<lparr>connected := True, connectionTries := 0\<rparr>)"

definition authenticate :: "nat \<Rightarrow> client \<Rightarrow> client" where
  "authenticate p s =
     (let (sid, s') = sendMessage (Authenticate (token s)) s
      in firstAndClose sid (KAuthenticate p) s')"

definition onopen :: "nat \<Rightarrow> client \<Rightarrow> client" where
  "onopen p s = (if truthy (token s) then authenticate p s else open_done p s)"

definition onerror :: "nat \<Rightarrow> client \<Rightarrow> client" where
  "onerror p s =
     (let s' = s\<lparr>connected := False\<rparr>
      in if connectionTries s' = 1 then settle_connection p (Some CouldNotConnect) s' else s')"

definition disconnect :: "client \<Rightarrow> client" where
  "disconnect s = s\<lparr>connected := False, loggedIn := False, socket := None\<rparr>"

section \<open>The entity mirror store\<close>

text \<open>
  Modelled from the spec: the methods of \<open>EntityState\<close> and \<open>EntitySubject\<close> are not among
  the sources. \<open>handleEntity\<close> finds or creates the mirror (section 4.5: calls that refer
  to the same key converge on one mirror) and counts one more holder; a mirror is released
  by its holders one by one, and the release by the last one runs the teardowns and drops
  the mirror (section 3); patch and update notifications find or create the mirror and
  apply the change, a removed mirror is not revived by them but needs a fresh create.
\<close>

definition hasEntitySubject :: "string \<Rightarrow> nat \<Rightarrow> client \<Rightarrow> bool" where
  "hasEntitySubject classType i s =
     (case entityState s (classType, i) of
        None \<Rightarrow> False
      | Some m \<Rightarrow> \<not> m_removed m)"

definition handleEntity :: "string \<Rightarrow> nat \<times> val \<Rightarrow> client \<Rightarrow> (string \<times> nat) \<times> client" where
  "handleEntity classType item s =
     (let key = (classType, fst item);
          fresh = \<lparr>m_item = PlainToClass classType (snd item), m_removed = False,
                   m_holders = 1, m_tearDowns = []\<rparr>
      in if hasEntitySubject classType (fst item) s then
           (case entityState s key of
              None \<Rightarrow> (key, s)
            | Some m \<Rightarrow>
                (key, s\<lparr>entityState := (entityState s)(key \<mapsto> m\<lparr>m_holders := m_holders m + 1\<rparr>)\<rparr>))
         else (key, s\<lparr>entityState := (entityState s)(key \<mapsto> fresh)\<rparr>))"

definition addTearDown :: "string \<times> nat \<Rightarrow> client_message \<Rightarrow> client \<Rightarrow> client" where
  "addTearDown key message s =
     (case entityState s key of
        None \<Rightarrow> s
      | Some m \<Rightarrow>
          s\<lparr>entityState := (entityState s)(key \<mapsto> m\<lparr>m_tearDowns := m_tearDowns m @ [message]\<rparr>)\<rparr>)"

fun sendAll :: "client_message list \<Rightarrow> client \<Rightarrow> error + client" where
  "sendAll [] s = Inr s"
| "sendAll (message # rest) s =
     (case send message s of
        Inl e \<Rightarrow> Inl e
      | Inr s' \<Rightarrow> sendAll rest s')"

definition release :: "string \<times> nat \<Rightarrow> client \<Rightarrow> error + client" where
  "release key s =
     (case entityState s key of
        None \<Rightarrow> Inr s
      | Some m \<Rightarrow>
          if m_holders m > 1 then
            Inr (s\<lparr>entityState := (entityState s)(key \<mapsto> m\<lparr>m_holders := m_holders m - 1\<rparr>)\<rparr>)
          else sendAll (m_tearDowns m) (s\<lparr>entityState := (entityState s)(key := None)\<rparr>))"

definition applyChange :: "string \<Rightarrow> nat \<Rightarrow> val \<Rightarrow> client \<Rightarrow> client" where
  "applyChange classType i v s =
     (case entityState s (classType, i) of
        None \<Rightarrow>
          s\<lparr>entityState := (entityState s)((classType, i) \<mapsto>
               \<lparr>m_item = v, m_removed = False, m_holders = 0, m_tearDowns = []\<rparr>)\<rparr>
      | Some m \<Rightarrow>
          if m_removed m then s
          else s\<lparr>entityState := (entityState s)((classType, i) \<mapsto> m\<lparr>m_item := v\<rparr>)\<rparr>)"

definition markRemoved :: "string \<Rightarrow> nat \<Rightarrow> client \<Rightarrow> client" where
  "markRemoved classType i s =
     (case entityState s (classType, i) of
        None \<Rightarrow> s
      | Some m \<Rightarrow> s\<lparr>entityState := (entityState s)((classType, i) \<mapsto> m\<lparr>m_removed := True\<rparr>)\<rparr>)"

fun handleEntityMessage :: "server_body \<Rightarrow> client \<Rightarrow> client" where
  "handleEntityMessage (EntityPatch n i v) s = applyChange n i v s"
| "handleEntityMessage (EntityUpdate n i v) s = applyChange n i v s"
| "handleEntityMessage (EntityRemove n i) s = markRemoved n i s"
| "handleEntityMessage (EntityRemoveMany n is) s = foldl (\<lambda>t i. markRemoved n i t) s is"
| "handleEntityMessage _ s = s"

text \<open>
  Modelled from the spec: \<open>StreamBehaviorSubject\<close>, \<open>Collection\<close> and the observers of
  the rxjs \<open>Observable\<close> are not among the sources either. Each is kept as the values it
  was given and its status; once completed or failed it takes nothing more.
  \<open>handleCollectionNext\<close> applies a diff frame to the collection of the call.
\<close>

definition bs_next :: "val \<Rightarrow> behavior_subject \<Rightarrow> behavior_subject" where
  "bs_next v b = (if bs_status b = Live then b\<lparr>bs_values := bs_values b @ [v]\<rparr> else b)"

definition bs_finish :: "status \<Rightarrow> behavior_subject \<Rightarrow> behavior_subject" where
  "bs_finish st b = (if bs_status b = Live then b\<lparr>bs_status := st\<rparr> else b)"

definition col_finish :: "status \<Rightarrow> collection \<Rightarrow> collection" where
  "col_finish st col = (if col_status col = Live then col\<lparr>col_status := st\<rparr> else col)"

definition ob_next :: "val \<Rightarrow> user_observer \<Rightarrow> user_observer" where
  "ob_next v ob =
     (if ob_closed ob \<or> ob_status ob \<noteq> Live then ob else ob\<lparr>ob_got := ob_got ob @ [v]\<rparr>)"

definition ob_finish :: "status \<Rightarrow> user_observer \<Rightarrow> user_observer" where
  "ob_finish st ob =
     (if ob_closed ob \<or> ob_status ob \<noteq> Live then ob else ob\<lparr>ob_status := st\<rparr>)"

definition handleCollectionNext :: "return_value \<Rightarrow> val \<Rightarrow> return_value" where
  "handleCollectionNext rv v =
     (case rv of
        ACollection col \<Rightarrow>
          ACollection (if col_status col = Live then col\<lparr>col_next := col_next col @ [v]\<rparr> else col)
      | _ \<Rightarrow> rv)"

section \<open>The reply callback of stream\<close>

definition lookupEntity :: "string option \<Rightarrow> client \<Rightarrow> string option" where
  "lookupEntity n s =
     (case n of
        None \<Rightarrow> None
      | Some x \<Rightarrow> if x \<in> set (RegisteredEntities s) then Some x else None)"

definition upd_stream :: "nat \<Rightarrow> (stream_call \<Rightarrow> stream_call) \<Rightarrow> client \<Rightarrow> client" where
  "upd_stream c f s =
     (case streams s c of
        None \<Rightarrow> s
      | Some st \<Rightarrow> s\<lparr>streams := (streams s)(c \<mapsto> f st)\<rparr>)"

text \<open>\<open>deserializeResult\<close> of call \<open>c\<close>, whose subject is \<open>sid\<close>: an unknown entity rejects
  the call, closes the subject and yields \<open>undefined\<close>.\<close>

definition deserializeResult :: "nat \<Rightarrow> nat \<Rightarrow> action_type \<Rightarrow> val \<Rightarrow> client \<Rightarrow> val \<times> client" where
  "deserializeResult c sid rt next s =
     (if type_name rt = ''Date'' then (NewDate next, s)
      else if type_name rt = ''Entity'' then
        (case lookupEntity (entityName rt) s of
           None \<Rightarrow> (Undefined, close sid (settle c (Rejected (EntityNotKnown (entityName rt))) s))
         | Some classType \<Rightarrow>
             if partial rt then
               (case next of
                  Arr vs \<Rightarrow> (Arr (map (PartialPlainToClass classType) vs), s)
                | _ \<Rightarrow> (PartialPlainToClass classType next, s))
             else
               (case next of
                  Arr vs \<Rightarrow> (Arr (map (PlainToClass classType) vs), s)
                | _ \<Rightarrow> (PlainToClass classType next, s)))
      else (next, s))"

text \<open>The branch for \<open>returnType === 'entity'\<close> of a \<open>type\<close> frame with id \<open>rid\<close>.\<close>

definition entity_reply :: "nat \<Rightarrow> nat \<Rightarrow> string option \<Rightarrow> (nat \<times> val) option \<Rightarrow> client \<Rightarrow> error + client" where
  "entity_reply c rid ename item s =
     (case item of
        None \<Rightarrow> Inr (settle c (Resolved (REntitySubject None)) s)
      | Some it \<Rightarrow>
          (case lookupEntity (Some (case ename of None \<Rightarrow> [] | Some n \<Rightarrow> n)) s of
             None \<Rightarrow> Inl (EntityNotKnown ename)
           | Some classType \<Rightarrow>
               if hasEntitySubject classType (fst it) s then
                 (let (subject, s1) = handleEntity classType it s
                  in Inr (settle c (Resolved (REntitySubject (Some subject))) s1))
               else
                 (let (subject, s1) = handleEntity classType it s;
                      s2 = addTearDown subject (rid, EntityUnsubscribe) s1
                  in Inr (settle c (Resolved (REntitySubject (Some subject))) s2))))"

definition type_reply :: "nat \<Rightarrow> nat \<Rightarrow> return_type \<Rightarrow> val \<Rightarrow> string option \<Rightarrow> (nat \<times> val) option \<Rightarrow> client \<Rightarrow> error + client" where
  "type_reply c rid rt data ename item s =
     (case rt of
        RSubject \<Rightarrow>
          Inr (settle c (Resolved RStreamBehaviorSubject)
                 (upd_stream c (\<lambda>st. st\<lparr>streamBehaviorSubject :=
                                   Some \<lparr>bs_values = [data], bs_status = Live\<rparr>\<rparr>) s))
      | REntity \<Rightarrow> entity_reply c rid ename item s
      | RObservable \<Rightarrow>
          Inr (settle c (Resolved RObservableValue)
                 (upd_stream c (\<lambda>st. st\<lparr>returnValue := AnObservable rid\<rparr>) s))
      | RCollection \<Rightarrow>
          (case lookupEntity ename s of
             None \<Rightarrow> Inl (EntityNotKnown ename)
           | Some classType \<Rightarrow>
               Inr (settle c (Resolved RCollectionValue)
                      (upd_stream c (\<lambda>st. st\<lparr>returnValue :=
                          ACollection \<lparr>col_class = classType, col_id = rid, col_next = [],
                                       col_status = Live, col_registered = True\<rparr>\<rparr>) s)))
      | ROther \<Rightarrow> Inr s)"

definition finish_collection :: "status \<Rightarrow> return_value \<Rightarrow> return_value" where
  "finish_collection st rv =
     (case rv of ACollection col \<Rightarrow> ACollection (col_finish st col) | _ \<Rightarrow> rv)"

text \<open>
  \<open>error/observable\<close> and \<open>complete/observable\<close>. An observer that is there and has not
  stopped is told, and then unsubscribes itself (rxjs), which runs the teardown that the
  subscribe function of line 507 returned: it sends \<open>observable/unsubscribe\<close>. When that
  \<open>send\<close> throws, the exception leaves the callback, so the observer is not deleted and
  the subject is not closed. Otherwise the observer is deleted from \<open>subscribers\<close>;
  \<open>unsubscribed\<close> keeps how it ended.
\<close>

definition forget :: "nat \<Rightarrow> nat \<Rightarrow> user_observer \<Rightarrow> client \<Rightarrow> client" where
  "forget c subscribeId ob s =
     upd_stream c
       (\<lambda>x. x\<lparr>subscribers := (subscribers x)(subscribeId := None),
              unsubscribed := unsubscribed x @ [(subscribeId, ob)]\<rparr>) s"

definition drop_subscriber :: "nat \<Rightarrow> nat \<Rightarrow> status \<Rightarrow> client \<Rightarrow> (error \<times> client) + client" where
  "drop_subscriber c subscribeId st s =
     (case streams s c of
        None \<Rightarrow> Inr s
      | Some x \<Rightarrow>
          (case subscribers x subscribeId of
             None \<Rightarrow> Inr s
           | Some ob \<Rightarrow>
               if ob_closed ob \<or> ob_status ob \<noteq> Live then Inr (forget c subscribeId ob s)
               else
                 (let s1 = upd_stream c
                             (\<lambda>x. x\<lparr>subscribers :=
                                      (subscribers x)(subscribeId \<mapsto> ob_finish st ob)\<rparr>) s
                  in case send (ob_reply ob, ObservableUnsubscribe subscribeId) s1 of
                       Inl e \<Rightarrow> Inl (e, s1)
                     | Inr s2 \<Rightarrow> Inr (forget c subscribeId (ob_finish st ob) s2))))"

text \<open>\<open>types.returnType\<close> as \<open>deserializeResult\<close> reads it.\<close>

definition returnTypeOfCall :: "client \<Rightarrow> stream_call \<Rightarrow> error + action_type" where
  "returnTypeOfCall s st =
     (case s_types st of
        Some types \<Rightarrow> Inr (returnType types)
      | None \<Rightarrow>
          (case s_inherited st of
             None \<Rightarrow> Inl TypeError
           | Some v \<Rightarrow> returnTypeOf (objects s) v))"

text \<open>The callback that \<open>stream\<close> subscribes. An exception comes with the state in which
  it was thrown.\<close>

definition stream_reply :: "nat \<Rightarrow> server_message \<Rightarrow> client \<Rightarrow> (error \<times> client) + client" where
  "stream_reply c reply s =
     (case streams s c of
        None \<Rightarrow> Inr s
      | Some st \<Rightarrow>
          (case s_subject st of
             None \<Rightarrow> Inr s
           | Some sid \<Rightarrow>
               (case snd reply of
                  TypeFrame rt data ename item \<Rightarrow>
                    (case type_reply c (fst reply) rt data ename item s of
                       Inl e \<Rightarrow> Inl (e, s)
                     | Inr s1 \<Rightarrow> Inr s1)
                | NextJson next \<Rightarrow>
                    (case returnTypeOfCall s st of
                       Inl e \<Rightarrow> Inl (e, s)
                     | Inr rt \<Rightarrow>
                         (let (v, s1) = deserializeResult c sid rt next s
                          in Inr (settle c (Resolved (RValue v)) s1)))
                | NextObservable subscribeId next \<Rightarrow>
                    (case subscribers st subscribeId of
                       None \<Rightarrow> Inr s
                     | Some ob \<Rightarrow>
                         (case returnTypeOfCall s st of
                            Inl e \<Rightarrow> Inl (e, s)
                          | Inr rt \<Rightarrow>
                              (let (v, s1) = deserializeResult c sid rt next s
                               in Inr (upd_stream c (\<lambda>x. x\<lparr>subscribers :=
                                          (subscribers x)(subscribeId \<mapsto> ob_next v ob)\<rparr>) s1))))
                | NextSubject next \<Rightarrow>
                    (case streamBehaviorSubject st of
                       None \<Rightarrow> Inr s
                     | Some b \<Rightarrow>
                         (case returnTypeOfCall s st of
                            Inl e \<Rightarrow> Inl (e, s)
                          | Inr rt \<Rightarrow>
                              (let (v, s1) = deserializeResult c sid rt next s
                               in Inr (upd_stream c (\<lambda>x. x\<lparr>streamBehaviorSubject :=
                                          Some (bs_next v b)\<rparr>) s1))))
                | NextCollection next \<Rightarrow>
                    Inr (upd_stream c (\<lambda>x. x\<lparr>returnValue :=
                           handleCollectionNext (returnValue x) next\<rparr>) s)
                | Complete \<Rightarrow>
                    Inr (close sid
                           (upd_stream c (\<lambda>x. x\<lparr>returnValue := finish_collection Completed (returnValue x),
                                streamBehaviorSubject := map_option (bs_finish Completed)
                                  (streamBehaviorSubject x)\<rparr>) s))
                | ErrorFrame e \<Rightarrow>
                    Inr (close sid
                           (case returnValue st of
                              ACollection col \<Rightarrow>
                                upd_stream c (\<lambda>x. x\<lparr>returnValue :=
                                  ACollection (col_finish (Failed (RemoteError e)) col)\<rparr>) s
                            | _ \<Rightarrow>
                                (case streamBehaviorSubject st of
                                   Some b \<Rightarrow>
                                     upd_stream c (\<lambda>x. x\<lparr>streamBehaviorSubject :=
                                       Some (bs_finish (Failed (RemoteError e)) b)\<rparr>) s
                                 | None \<Rightarrow> settle c (Rejected (RemoteError e)) s)))
                | ErrorObservable subscribeId e \<Rightarrow>
                    (case drop_subscriber c subscribeId (Failed (RemoteError e)) s of
                       Inl x \<Rightarrow> Inl x
                     | Inr s1 \<Rightarrow> Inr (close sid s1))
                | CompleteObservable subscribeId \<Rightarrow>
                    (case drop_subscriber c subscribeId Completed s of
                       Inl x \<Rightarrow> Inl x
                     | Inr s1 \<Rightarrow> Inr (close sid s1))
                | _ \<Rightarrow> Inr s)))"

section \<open>Calls\<close>

text \<open>The loop of \<open>stream\<close> over its arguments: an argument without a parameter type
  raises a \<open>TypeError\<close>, an entity that is not registered raises as well.\<close>

fun convert_args :: "string list \<Rightarrow> action_type list \<Rightarrow> val list \<Rightarrow> error + val list" where
  "convert_args regs ps [] = Inr []"
| "convert_args regs [] (a # as) = Inl TypeError"
| "convert_args regs (p # ps) (a # as) =
     (if type_name p = ''Entity'' \<and> truthy (entityName p) then
        (case entityName p of
           None \<Rightarrow> Inl TypeError
         | Some n \<Rightarrow>
             if n \<in> set regs then
               (case convert_args regs ps as of
                  Inl e \<Rightarrow> Inl e
                | Inr r \<Rightarrow> Inr ((if partial p then PartialClassToPlain n a else ClassToPlain n a) # r))
             else Inl (InvalidEntityReferenced n))
      else
        (case convert_args regs ps as of
           Inl e \<Rightarrow> Inl e
         | Inr r \<Rightarrow> Inr (a # r)))"

text \<open>
  Call \<open>c\<close> has its types. A call of \<open>getActionTypes\<close> from outside resolves with them;
  \<open>stream\<close> converts the arguments, sends the action and subscribes its callback.
\<close>

definition continue_call :: "nat \<Rightarrow> action_types \<Rightarrow> client \<Rightarrow> client" where
  "continue_call c types s =
     (case streams s c of
        None \<Rightarrow> settle c (Resolved (RTypes types)) s
      | Some st \<Rightarrow>
          (case convert_args (RegisteredEntities s) (parameters types) (s_args st) of
             Inl e \<Rightarrow> settle c (Rejected e) s
           | Inr args \<Rightarrow>
               (let (sid, s1) = sendMessage (Action (s_controller st) (s_name st) args) s
                in upd_subject sid (\<lambda>x. x\<lparr>observer := StreamSub c\<rparr>)
                     (upd_stream c
                        (\<lambda>x. x\<lparr>s_args := args, s_types := Some types, s_subject := Some sid\<rparr>) s1))))"

text \<open>
  The same when \<open>getActionTypes\<close> returned a value \<open>v\<close> that is no types object: a caller
  outside gets \<open>v\<close>, and the loop of \<open>stream\<close> reads \<open>types.parameters[i]\<close> from it for
  every argument.
\<close>

fun convert_inherited :: "string list \<Rightarrow> heap \<Rightarrow> jsval \<Rightarrow> nat \<Rightarrow> val list \<Rightarrow> error + val list" where
  "convert_inherited regs h v i [] = Inr []"
| "convert_inherited regs h v i (a # as) =
     (case parameterAt h v i of
        Inl e \<Rightarrow> Inl e
      | Inr p \<Rightarrow>
          (case convert_args regs [p] [a] of
             Inl e \<Rightarrow> Inl e
           | Inr r \<Rightarrow>
               (case convert_inherited regs h v (i + 1) as of
                  Inl e \<Rightarrow> Inl e
                | Inr rest \<Rightarrow> Inr (r @ rest))))"

definition continue_inherited :: "nat \<Rightarrow> jsval \<Rightarrow> client \<Rightarrow> client" where
  "continue_inherited c v s =
     (case streams s c of
        None \<Rightarrow> settle c (Resolved (RCached v)) s
      | Some st \<Rightarrow>
          (case convert_inherited (RegisteredEntities s) (objects s) v 0 (s_args st) of
             Inl e \<Rightarrow> settle c (Rejected e) s
           | Inr args \<Rightarrow>
               (let (sid, s1) = sendMessage (Action (s_controller st) (s_name st) args) s
                in upd_subject sid (\<lambda>x. x\<lparr>observer := StreamSub c\<rparr>)
                     (upd_stream c
                        (\<lambda>x. x\<lparr>s_args := args, s_inherited := Some v, s_subject := Some sid\<rparr>) s1))))"

text \<open>The content of a types object of line 389, if \<open>v\<close> is one.\<close>

definition typesOf :: "client \<Rightarrow> jsval \<Rightarrow> action_types option" where
  "typesOf s v = (case v of JObject (TypesObject n) \<Rightarrow> typesObjects s n | _ \<Rightarrow> None)"

text \<open>\<open>getActionTypes\<close> returns \<open>v\<close> to call \<open>c\<close> (line 398).\<close>

definition return_cached :: "nat \<Rightarrow> jsval \<Rightarrow> client \<Rightarrow> client" where
  "return_cached c v s =
     (case typesOf s v of
        Some types \<Rightarrow> continue_call c types s
      | None \<Rightarrow> continue_inherited c v s)"

text \<open>The expression \<open>this.cachedActionsTypes[controller][actionName]\<close>.\<close>

definition cached :: "client \<Rightarrow> string \<Rightarrow> string \<Rightarrow> error + jsval" where
  "cached s controller actionName =
     (case js_get (objects s) (JObject CachedActionsTypes) controller of
        Inl e \<Rightarrow> Inl e
      | Inr byAction \<Rightarrow> js_get (objects s) byAction actionName)"

text \<open>Lines 375 to 377: a controller under which the cache has nothing truthy, neither
  its own nor inherited, gets a new empty object.\<close>

definition ensure_controller :: "string \<Rightarrow> client \<Rightarrow> error + client" where
  "ensure_controller controller s =
     (case js_get (objects s) (JObject CachedActionsTypes) controller of
        Inl e \<Rightarrow> Inl e
      | Inr v \<Rightarrow>
          if js_truthy v then Inr s
          else
            (case js_set (JObject CachedActionsTypes) controller (JObject (Created controller))
                    ((objects s)(Created controller := Map.empty)) of
               Inl e \<Rightarrow> Inl e
             | Inr h \<Rightarrow> Inr (s\<lparr>objects := h\<rparr>)))"

text \<open>
  Line 389 in the call \<open>c\<close>: the new object with its two properties is assigned to
  \<open>this.cachedActionsTypes[controller][actionName]\<close>. When the receiver is a builtin
  function (the controller \<open>toString\<close>, say) the property is added to that function, and
  when it is \<open>Object.prototype\<close> (the controller \<open>__proto__\<close>) every object inherits
  the property from then on. The reads of the cache and of the values taken from it go
  through \<open>js_get\<close> and see such a property. The tables \<open>replies\<close> and \<open>subscribers\<close>
  are read under numbers, and the fields of the client, of the frames and of the type
  descriptions under names that no builtin object defines: as long as nothing has been
  assigned to \<open>Object.prototype\<close> these reads find own properties only, and the model
  takes them as reads of own properties.
\<close>

definition store_types :: "string \<Rightarrow> string \<Rightarrow> nat \<Rightarrow> action_types \<Rightarrow> client \<Rightarrow> error + client" where
  "store_types controller actionName c types s =
     (case js_get (objects s) (JObject CachedActionsTypes) controller of
        Inl e \<Rightarrow> Inl e
      | Inr byAction \<Rightarrow>
          (case js_set byAction actionName (JObject (TypesObject c))
                  ((objects s)(TypesObject c :=
                     [''parameters'' \<mapsto> Data (JObject (ParametersOf c)) True,
                      ''returnType'' \<mapsto> Data (JObject (ReturnTypeOf c)) True])) of
             Inl e \<Rightarrow> Inl e
           | Inr h \<Rightarrow> Inr (s\<lparr>objects := h, typesObjects := (typesObjects s)(c \<mapsto> types)\<rparr>)))"

text \<open>
  The awaiting function goes on with the first reply. \<open>authenticate\<close> stores the result,
  throws on an \<open>error\<close> frame and returns \<open>loggedIn\<close> to \<open>onopen\<close>, which rejects the attempt
  with \<open>AuthorizationError\<close> or finishes the opening. \<open>getActionTypes\<close> throws on an
  \<open>error\<close> frame and on an unexpected frame; otherwise it assigns the types to the cache
  and returns what the cache then holds for the key.
\<close>

fun resume_k :: "ksub \<Rightarrow> server_message \<Rightarrow> client \<Rightarrow> client" where
  "resume_k KCaller reply s = s"
| "resume_k (KAuthenticate p) reply s =
     (let s1 = (case snd reply of AuthenticateResult b \<Rightarrow> s\<lparr>loggedIn := b\<rparr> | _ \<Rightarrow> s)
      in case snd reply of
           ErrorFrame e \<Rightarrow> s1\<lparr>logged := logged s1 @ [Unhandled (RemoteError e)]\<rparr>
         | _ \<Rightarrow>
             if loggedIn s1 then open_done p s1
             else settle_connection p (Some AuthorizationError) s1)"
| "resume_k (KActionTypes controller actionName c) reply s =
     (case snd reply of
        ErrorFrame e \<Rightarrow> settle c (Rejected (RemoteError e)) s
      | ActionTypesResult ps rt \<Rightarrow>
          (case store_types controller actionName c \<lparr>parameters = ps, returnType = rt\<rparr> s of
             Inl e \<Rightarrow> settle c (Rejected e) s
           | Inr s1 \<Rightarrow>
               (case cached s1 controller actionName of
                  Inl e \<Rightarrow> settle c (Rejected e) s1
                | Inr v \<Rightarrow> return_cached c v s1))
      | _ \<Rightarrow> settle c (Rejected InvalidMessageReturned) s)"

text \<open>
  \<open>getActionTypes\<close> for the call \<open>c\<close>. An exception of a read rejects the call. A falsy
  value under the key lets the request go out; any truthy value counts as cached and is
  returned, be it a types object or a property that the object inherits.
\<close>

definition getActionTypes :: "string \<Rightarrow> string \<Rightarrow> nat \<Rightarrow> client \<Rightarrow> client" where
  "getActionTypes controller actionName c s =
     (case ensure_controller controller s of
        Inl e \<Rightarrow> settle c (Rejected e) s
      | Inr s1 \<Rightarrow>
          (case cached s1 controller actionName of
             Inl e \<Rightarrow> settle c (Rejected e) s1
           | Inr v \<Rightarrow>
               if js_truthy v then return_cached c v s1
               else
                 (let (sid, s2) = sendMessage (ActionTypes controller actionName) s1
                  in firstAndClose sid (KActionTypes controller actionName c) s2)))"

definition stream :: "string \<Rightarrow> string \<Rightarrow> val list \<Rightarrow> client \<Rightarrow> nat \<times> client" where
  "stream controller name args s =
     (let (c, s1) = new_call s;
          s2 = s1\<lparr>streams := (streams s1)(c \<mapsto>
                 \<lparr>s_controller = controller, s_name = name, s_args = args, s_types = None,
                  s_inherited = None, s_subject = None, returnValue = NoValue, streamBehaviorSubject = None,
                  subscribers = Map.empty, subscriberIdCounter = 0, unsubscribed = []\<rparr>)\<rparr>
      in (c, getActionTypes controller name c s2))"

text \<open>Calls of the public methods \<open>getActionTypes\<close> and \<open>connect\<close> from outside.\<close>

definition call_getActionTypes :: "string \<Rightarrow> string \<Rightarrow> client \<Rightarrow> nat \<times> client" where
  "call_getActionTypes controller actionName s =
     (let (c, s1) = new_call s
      in (c, getActionTypes controller actionName c (s1\<lparr>streams := (streams s1)(c := None)\<rparr>)))"

definition call_connect :: "client \<Rightarrow> nat \<times> client" where
  "call_connect s = (let (c, s1) = new_call s in (c, connect (ThenCaller c) s1))"

section \<open>Incoming frames\<close>

text \<open>
  \<open>subject.next(reply)\<close>: nothing on a stopped subject. The observer of
  \<open>firstAndClose\<close> resolves the promise with the value, whatever it is, and unsubscribes,
  which runs \<open>close()\<close>; then the awaiting function goes on. An exception inside the
  callback of \<open>stream\<close> unsubscribes the callback and is reported, not thrown on.
\<close>

definition subject_next :: "nat \<Rightarrow> server_message \<Rightarrow> client \<Rightarrow> client" where
  "subject_next sid v s =
     (case subjects s sid of
        None \<Rightarrow> s
      | Some sub \<Rightarrow>
          if isStopped sub then s
          else
            (let s1 = upd_subject sid (\<lambda>x. x\<lparr>emitted := emitted x @ [v]\<rparr>) s
             in case observer sub of
                  NoSubscriber \<Rightarrow> s1
                | FirstAndClose k \<Rightarrow>
                    resume_k k v
                      (close sid
                         (upd_subject sid
                            (\<lambda>x. x\<lparr>observer := NoSubscriber,
                                   promise := Some (Resolved (RReply v))\<rparr>) s1))
                | StreamSub c \<Rightarrow>
                    (case stream_reply c v s1 of
                       Inl (e, s2) \<Rightarrow>
                         (upd_subject sid (\<lambda>x. x\<lparr>observer := NoSubscriber\<rparr>) s2)
                         \<lparr>logged := logged s2 @ [Unhandled e]\<rparr>
                     | Inr s2 \<Rightarrow> s2)))"

fun entity_message :: "server_body \<Rightarrow> bool" where
  "entity_message (EntityRemove n i) = True"
| "entity_message (EntityPatch n i v) = True"
| "entity_message (EntityUpdate n i v) = True"
| "entity_message (EntityRemoveMany n is) = True"
| "entity_message _ = False"

text \<open>\<open>onMessage\<close>; the argument is what \<open>JSON.parse\<close> gave, \<open>None\<close> for a falsy value.\<close>

definition onMessage :: "server_message option \<Rightarrow> client \<Rightarrow> error + client" where
  "onMessage ev s =
     (case ev of
        None \<Rightarrow> Inl InvalidMessage
      | Some message \<Rightarrow>
          if entity_message (snd message) then Inr (handleEntityMessage (snd message) s)
          else if snd message = Channel then Inr s
          else
            (case replies s (fst message) of
               Some subject \<Rightarrow> Inr (subject_next subject message s)
             | None \<Rightarrow> Inr (s\<lparr>logged := logged s @ [NoRepliesCallback (fst message)]\<rparr>)))"

section \<open>The live objects in the hands of the application\<close>

text \<open>
  Subscribing to the \<open>Observable\<close> that call \<open>c\<close> returned (lines 507 to 527). When
  \<open>send\<close> throws inside the subscribe function, rxjs hands the exception to the observer
  as its error, and no teardown is registered.
\<close>

definition observable_subscribe :: "nat \<Rightarrow> client \<Rightarrow> client" where
  "observable_subscribe c s =
     (case streams s c of
        None \<Rightarrow> s
      | Some st \<Rightarrow>
          (case returnValue st of
             AnObservable rid \<Rightarrow>
               (let subscriberId = subscriberIdCounter st + 1;
                    ob = \<lparr>ob_closed = False, ob_got = [], ob_status = Live, ob_reply = rid\<rparr>;
                    s1 = upd_stream c
                           (\<lambda>x. x\<lparr>subscriberIdCounter := subscriberId,
                                  subscribers := (subscribers x)(subscriberId \<mapsto> ob)\<rparr>) s
                in case send (rid, ObservableSubscribe subscriberId) s1 of
                     Inl e \<Rightarrow>
                       upd_stream c
                         (\<lambda>x. x\<lparr>subscribers :=
                                  (subscribers x)(subscriberId \<mapsto> ob\<lparr>ob_status := Failed e\<rparr>)\<rparr>) s1
                   | Inr s2 \<Rightarrow> s2)
           | _ \<Rightarrow> s))"

text \<open>
  The application unsubscribes the observer \<open>subscriberId\<close>. A subscription runs its
  teardown once: nothing happens when the observer has unsubscribed before, or has
  ended with an error or a completion. An exception of \<open>send\<close> is thrown to the
  application.
\<close>

definition observable_unsubscribe :: "nat \<Rightarrow> nat \<Rightarrow> client \<Rightarrow> client" where
  "observable_unsubscribe c subscriberId s =
     (case streams s c of
        None \<Rightarrow> s
      | Some st \<Rightarrow>
          (case subscribers st subscriberId of
             None \<Rightarrow> s
           | Some ob \<Rightarrow>
               if ob_closed ob \<or> ob_status ob \<noteq> Live then s
               else
                 (let s1 = upd_stream c
                             (\<lambda>x. x\<lparr>subscribers :=
                                      (subscribers x)(subscriberId \<mapsto> ob\<lparr>ob_closed := True\<rparr>)\<rparr>) s
                  in case send (ob_reply ob, ObservableUnsubscribe subscriberId) s1 of
                       Inl e \<Rightarrow> s1\<lparr>logged := logged s1 @ [Unhandled e]\<rparr>
                     | Inr s2 \<Rightarrow> s2)))"

text \<open>The teardown added to the collection of call \<open>c\<close>.\<close>

definition collection_unsubscribe :: "nat \<Rightarrow> client \<Rightarrow> client" where
  "collection_unsubscribe c s =
     (case streams s c of
        None \<Rightarrow> s
      | Some st \<Rightarrow>
          (case returnValue st of
             ACollection col \<Rightarrow>
               (let s1 = upd_stream c
                           (\<lambda>x. x\<lparr>returnValue := ACollection (col\<lparr>col_registered := False\<rparr>)\<rparr>) s
                in case send (col_id col, CollectionUnsubscribe) s1 of
                     Inl e \<Rightarrow> s1\<lparr>logged := logged s1 @ [Unhandled e]\<rparr>
                   | Inr s2 \<Rightarrow> s2)
           | _ \<Rightarrow> s))"

section \<open>Runs\<close>

datatype event =
    Connect
  | Disconnect
  | GetActionTypes string string
  | Stream string string "val list"
  | SocketOpen nat
  | SocketError nat
  | SocketMessage "server_message option"
  | Release string nat
  | Subscribe nat
  | Unsubscribe nat nat
  | UnsubscribeCollection nat

fun handle :: "event \<Rightarrow> client \<Rightarrow> client" where
  "handle Connect s = snd (call_connect s)"
| "handle Disconnect s = disconnect s"
| "handle (GetActionTypes controller actionName) s = snd (call_getActionTypes controller actionName s)"
| "handle (Stream controller name args) s = snd (stream controller name args s)"
| "handle (SocketOpen p) s = onopen p s"
| "handle (SocketError p) s = onerror p s"
| "handle (SocketMessage ev) s =
     (case onMessage ev s of
        Inl e \<Rightarrow> s\<lparr>logged := logged s @ [Unhandled e]\<rparr>
      | Inr s' \<Rightarrow> s')"
| "handle (Release n i) s =
     (case release (n, i) s of
        Inl e \<Rightarrow> s\<lparr>logged := logged s @ [Unhandled e]\<rparr>
      | Inr s' \<Rightarrow> s')"
| "handle (Subscribe c) s = observable_subscribe c s"
| "handle (Unsubscribe c i) s = observable_unsubscribe c i s"
| "handle (UnsubscribeCollection c) s = collection_unsubscribe c s"

text \<open>One turn of the event loop: the handler, then the continuations that are due.\<close>

definition step :: "event \<Rightarrow> client \<Rightarrow> client" where
  "step e s = run_jobs (handle e s)"

definition run :: "event list \<Rightarrow> client \<Rightarrow> client" where
  "run es s = foldl (\<lambda>t e. step e t) s es"

section \<open>One-shot calls\<close>

text \<open>
  A one-shot call is the expression \<^verbatim>\<open>this.sendMessage(...).firstAndClose()\<close>, as
  \<open>authenticate\<close> and \<open>getActionTypes\<close> use it; here the promise goes to a caller outside.
  \<open>issue\<close> makes several such calls in one turn, \<open>deliver\<close> lets the frames of the server
  arrive one after the other.
\<close>

definition oneShot :: "client_body \<Rightarrow> client \<Rightarrow> nat \<times> client" where
  "oneShot m s = (let (sid, s') = sendMessage m s in (sid, firstAndClose sid KCaller s'))"

fun issue :: "client_body list \<Rightarrow> client \<Rightarrow> nat list \<times> client" where
  "issue [] s = ([], s)"
| "issue (m # ms) s =
     (let (sid, s1) = oneShot m s;
          (sids, s2) = issue ms s1
      in (sid # sids, s2))"

definition deliver :: "server_message list \<Rightarrow> client \<Rightarrow> client" where
  "deliver fs s = run (map (\<lambda>f. SocketMessage (Some f)) fs) s"

text \<open>The state of the one-shot call \<open>sid\<close> after the frames \<open>seen\<close> have arrived: it
  waits with its routing entry in place, or it has resolved with the first frame that
  bore its identifier, has removed the entry and has completed.\<close>

definition routed :: "server_message list \<Rightarrow> client \<Rightarrow> nat \<Rightarrow> bool" where
  "routed seen t sid =
     (case find (\<lambda>f. fst f = sid) seen of
        None \<Rightarrow>
          replies t sid = Some sid \<and>
          subjects t sid =
            Some \<lparr>teardown = sid, isStopped = False, thrownError = None,
                  observer = FirstAndClose KCaller, emitted = [], promise = None,
                  tornDown = 0\<rparr>
      | Some f \<Rightarrow>
          replies t sid = None \<and>
          subjects t sid =
            Some \<lparr>teardown = sid, isStopped = True, thrownError = None,
                  observer = NoSubscriber, emitted = [f],
                  promise = Some (Resolved (RReply f)), tornDown = 1\<rparr>)"

section \<open>A live exchange\<close>

text \<open>
  A live exchange: the client connects, \<open>stream\<close> fetches the types (exchange 1) and
  sends the action (exchange 2), and the server answers with a \<open>type\<close> frame that
  announces a subject.
\<close>

definition live_exchange :: client where
  "live_exchange =
     run [Connect, SocketOpen 0, Stream ''c'' ''a'' [],
          SocketMessage (Some (1, ActionTypesResult []
             \<lparr>type_name = ''String'', entityName = None, partial = False\<rparr>)),
          SocketMessage (Some (2, TypeFrame RSubject (Plain ''v'') None None))]
       (init None [])"

section \<open>Scenarios of connecting\<close>

text \<open>A client with a token calls \<open>connect()\<close> and its socket opens.\<close>

definition token_client :: client where
  "token_client = run [Connect, SocketOpen 0] (init (Some ''secret'') [])"

text \<open>A client without a token whose first attempt to connect has failed.\<close>

definition failed_once :: client where
  "failed_once = run [Connect, SocketError 0] (init None [])"

text \<open>Several callers of \<open>connect()\<close> in one turn.\<close>

fun connects :: "nat \<Rightarrow> client \<Rightarrow> client" where
  "connects 0 s = s"
| "connects (Suc n) s = connects n (snd (call_connect s))"

section \<open>Scenarios of entity replies\<close>

text \<open>A connected client on which \<open>stream\<close> has fetched the types (exchange 1) and sent
  the action (exchange 2), whose reply is still to come.\<close>

definition entity_call :: client where
  "entity_call =
     run [Connect, SocketOpen 0, Stream ''users'' ''get'' [],
          SocketMessage (Some (1, ActionTypesResult []
             \<lparr>type_name = ''Entity'', entityName = Some ''User'', partial = False\<rparr>))]
       (init None [''User''])"

text \<open>The same client after the reply has brought the entity 7, and a second call of
  the same action (exchange 3) is in flight.\<close>

definition entity_call_again :: client where
  "entity_call_again =
     run [SocketMessage (Some (2, TypeFrame REntity Undefined (Some ''User'') (Some (7, Plain ''peter'')))),
          Stream ''users'' ''get'' []]
       entity_call"

section \<open>The chunked transfer codec\<close>

text \<open>
  Modelled from the spec: the codec that splits and reassembles large messages and the
  progress tracker (\<open>ClientProgress\<close> of \<^verbatim>\<open>../src/writer\<close>, with \<open>DirectClient\<close> and
  \<open>RpcKernel\<close>) are not among the sources; only their test \<open>chunks\<close> is. Following
  section 4.6 of the specification, a message that exceeds the chunk size is split into
  sequential chunks, each sent as a frame of its own with its index; the receiver
  appends the chunks in the order of arrival to one buffer and rejects a chunk that is
  out of order; after every chunk it reports the progress, where \<open>current\<close> is the
  length assembled so far, \<open>total\<close> was announced before, \<open>done\<close> compares the two, and
  \<open>progress\<close> is their quotient, at most 1. The message is the payload together with
  the metadata that the encoding adds (the overhead).
\<close>

function split_chunks :: "nat \<Rightarrow> 'a list \<Rightarrow> 'a list list" where
  "split_chunks n xs =
     (if n = 0 \<or> length xs \<le> n then [xs]
      else take n xs # split_chunks n (drop n xs))"
  by pat_completeness auto
termination
  by (relation "measure (\<lambda>(n, xs). length xs)") auto

declare split_chunks.simps [simp del]

record 'a transfer =
  buffer :: "'a list"
  received :: nat
  total :: nat

datatype transfer_error = OutOfOrder

definition current :: "'a transfer \<Rightarrow> nat" where
  "current t = length (buffer t)"

definition is_done :: "'a transfer \<Rightarrow> bool" where
  "is_done t = (total t \<le> current t)"

definition progress :: "'a transfer \<Rightarrow> real" where
  "progress t = (if total t = 0 then 0 else min 1 (real (current t) / real (total t)))"

definition receive :: "nat \<times> 'a list \<Rightarrow> 'a transfer \<Rightarrow> transfer_error + 'a transfer" where
  "receive chunk t =
     (if fst chunk \<noteq> received t then Inl OutOfOrder
      else Inr (t\<lparr>buffer := buffer t @ snd chunk, received := received t + 1\<rparr>))"

text \<open>The progress updates of a transfer: the state after each chunk.\<close>

fun receive_all :: "(nat \<times> 'a list) list \<Rightarrow> 'a transfer \<Rightarrow> transfer_error + 'a transfer list" where
  "receive_all [] t = Inr []"
| "receive_all (chunk # chunks) t =
     (case receive chunk t of
        Inl e \<Rightarrow> Inl e
      | Inr t' \<Rightarrow>
          (case receive_all chunks t' of
             Inl e \<Rightarrow> Inl e
           | Inr ts \<Rightarrow> Inr (t' # ts)))"

definition download :: "nat \<Rightarrow> 'a list \<Rightarrow> transfer_error + 'a transfer list" where
  "download n message =
     receive_all (enumerate 0 (split_chunks n message))
       \<lparr>buffer = [], received = 0, total = length message\<rparr>"

text \<open>The lengths assembled after each chunk, starting from the length \<open>a\<close>.\<close>

fun running :: "nat \<Rightarrow> nat list \<Rightarrow> nat list" where
  "running a [] = []"
| "running a (x # xs) = (a + x) # running (a + x) xs"

text \<open>The routing is sound in a state: every routing entry leads to the subject of its
  own identifier, and every frame a subject has passed on bears the identifier of that
  subject.\<close>

definition routes :: "client \<Rightarrow> bool" where
  "routes s =
     ((\<forall>i j. replies s i = Some j \<longrightarrow> j = i) \<and>
      (\<forall>sid sub. subjects s sid = Some sub \<longrightarrow> (\<forall>f \<in> set (emitted sub). fst f = sid)))"

section \<open>The message counter never goes back\<close>

lemma messageId_send: "send m s = Inr t \<Longrightarrow> messageId t = messageId s"
  by (auto simp: send_def split: option.splits)

lemma messageId_settle [simp]: "messageId (settle c out s) = messageId s"
  by (simp add: settle_def split: option.splits)

lemma messageId_new_call [simp]: "messageId (snd (new_call s)) = messageId s"
  by (simp add: new_call_def)

lemma messageId_upd_subject [simp]: "messageId (upd_subject sid f s) = messageId s"
  by (simp add: upd_subject_def split: option.splits)

lemma messageId_noteTearDown [simp]: "messageId (noteTearDown sid s) = messageId s"
  by (simp add: noteTearDown_def)

lemma messageId_tearDown [simp]: "messageId (tearDown sid s) = messageId s"
  by (simp add: tearDown_def split: option.splits)

lemma messageId_fail_k [simp]: "messageId (fail_k k e s) = messageId s"
  by (cases k) simp_all

lemma messageId_complete [simp]: "messageId (complete sid s) = messageId s"
  by (simp add: complete_def split: option.splits subscriber.splits)

lemma messageId_close [simp]: "messageId (close sid s) = messageId s"
  by (simp add: close_def)

lemma messageId_subject_error [simp]: "messageId (subject_error sid e s) = messageId s"
  by (simp add: subject_error_def split: option.splits subscriber.splits)

lemma messageId_connect [simp]: "messageId (connect k s) = messageId s"
  by (simp add: connect_def doConnect_def split: option.splits prod.splits)

lemma messageId_sendMessage [simp]: "messageId (snd (sendMessage m s)) = messageId s + 1"
  by (simp add: sendMessage_def Let_def)

lemma fst_sendMessage [simp]: "fst (sendMessage m s) = messageId s + 1"
  by (simp add: sendMessage_def Let_def)

lemma messageId_firstAndClose [simp]: "messageId (firstAndClose sid k s) = messageId s"
  by (simp add: firstAndClose_def Let_def split: option.splits)

lemma messageId_run_cont [simp]: "messageId (run_cont r k s) = messageId s"
  by (cases "(r, k, s)" rule: run_cont.cases) (auto simp: send_def split: option.splits)

lemma messageId_resume_waiter [simp]: "messageId (resume_waiter r k s) = messageId s"
  by (cases r) simp_all

lemma messageId_waiters [simp]:
  "messageId (foldl (\<lambda>t w. resume_waiter r w t) s ws) = messageId s"
  by (induction ws arbitrary: s) simp_all

lemma messageId_settle_connection [simp]: "messageId (settle_connection p r s) = messageId s"
  by (simp add: settle_connection_def split: option.splits list.splits)

lemma messageId_conts [simp]: "messageId (foldl (\<lambda>t k. run_cont r k t) s ks) = messageId s"
  by (induction ks arbitrary: s) simp_all

lemma messageId_run_jobs [simp]: "messageId (run_jobs s) = messageId s"
  by (simp add: run_jobs_def)

lemma messageId_open_done [simp]: "messageId (open_done p s) = messageId s"
  by (simp add: open_done_def)

lemma messageId_onopen: "messageId s \<le> messageId (onopen p s)"
  by (simp add: onopen_def authenticate_def split: prod.splits)
     (metis messageId_sendMessage snd_conv le_add1)

lemma messageId_onerror [simp]: "messageId (onerror p s) = messageId s"
  by (simp add: onerror_def Let_def)

lemma messageId_handleEntity [simp]: "messageId (snd (handleEntity ct it s)) = messageId s"
  by (simp add: handleEntity_def Let_def split: option.splits)

lemma messageId_addTearDown [simp]: "messageId (addTearDown key m s) = messageId s"
  by (simp add: addTearDown_def split: option.splits)

lemma messageId_sendAll: "sendAll ms s = Inr t \<Longrightarrow> messageId t = messageId s"
  by (induction ms arbitrary: s) (auto simp: send_def split: option.splits sum.splits)

lemma messageId_release: "release key s = Inr t \<Longrightarrow> messageId t = messageId s"
  by (auto simp: release_def dest: messageId_sendAll split: option.splits if_splits)

lemma messageId_applyChange [simp]: "messageId (applyChange n i v s) = messageId s"
  by (simp add: applyChange_def split: option.splits)

lemma messageId_markRemoved [simp]: "messageId (markRemoved n i s) = messageId s"
  by (simp add: markRemoved_def split: option.splits)

lemma messageId_markRemoved_many [simp]:
  "messageId (foldl (\<lambda>t i. markRemoved n i t) s is) = messageId s"
  by (induction "is" arbitrary: s) simp_all

lemma messageId_handleEntityMessage [simp]: "messageId (handleEntityMessage b s) = messageId s"
  by (cases b) simp_all

lemma messageId_upd_stream [simp]: "messageId (upd_stream c f s) = messageId s"
  by (simp add: upd_stream_def split: option.splits)

lemma messageId_deserializeResult [simp]:
  "messageId (snd (deserializeResult c sid rt v s)) = messageId s"
  by (simp add: deserializeResult_def split: option.splits val.splits)

lemma messageId_entity_reply:
  "entity_reply c rid ename item s = Inr t \<Longrightarrow> messageId t = messageId s"
  by (auto simp: entity_reply_def Let_def split: option.splits if_splits prod.splits)
     (metis messageId_handleEntity snd_conv)+

lemma messageId_type_reply:
  "type_reply c rid rt data ename item s = Inr t \<Longrightarrow> messageId t = messageId s"
  by (auto simp: type_reply_def dest: messageId_entity_reply split: return_type.splits option.splits)

lemma messageId_forget [simp]: "messageId (forget c i ob s) = messageId s"
  by (simp add: forget_def)

lemma messageId_drop_subscriber:
  "drop_subscriber c i st s = Inr t \<Longrightarrow> messageId t = messageId s"
  by (auto simp: drop_subscriber_def Let_def dest!: messageId_send
      split: option.splits if_splits sum.splits)

lemma messageId_drop_subscriber_thrown:
  "drop_subscriber c i st s = Inl (e, t) \<Longrightarrow> messageId t = messageId s"
  by (auto simp: drop_subscriber_def Let_def split: option.splits if_splits sum.splits)

lemma messageId_stream_reply:
  "stream_reply c reply s = Inr t \<Longrightarrow> messageId t = messageId s"
  by (auto simp: stream_reply_def Let_def
      dest: messageId_type_reply messageId_drop_subscriber
      split: option.splits server_body.splits prod.splits return_value.splits sum.splits)
     (metis messageId_deserializeResult snd_conv)+

lemma messageId_stream_reply_thrown:
  "stream_reply c reply s = Inl (e, t) \<Longrightarrow> messageId t = messageId s"
  by (auto simp: stream_reply_def Let_def dest: messageId_drop_subscriber_thrown
      split: option.splits server_body.splits prod.splits return_value.splits sum.splits)

lemma messageId_continue_call: "messageId s \<le> messageId (continue_call c types s)"
  by (auto simp: continue_call_def split: option.splits sum.splits prod.splits)
     (metis messageId_sendMessage snd_conv le_add1)

lemma messageId_continue_inherited: "messageId s \<le> messageId (continue_inherited c v s)"
  by (auto simp: continue_inherited_def split: option.splits sum.splits prod.splits)
     (metis messageId_sendMessage snd_conv le_add1)

lemma messageId_return_cached: "messageId s \<le> messageId (return_cached c v s)"
  by (simp add: return_cached_def messageId_continue_call messageId_continue_inherited
      split: option.splits)

lemma messageId_ensure_controller:
  "ensure_controller controller s = Inr t \<Longrightarrow> messageId t = messageId s"
  by (auto simp: ensure_controller_def split: sum.splits if_splits)

lemma messageId_store_types:
  "store_types controller actionName c types s = Inr t \<Longrightarrow> messageId t = messageId s"
  by (auto simp: store_types_def split: sum.splits)

lemma messageId_resume_k: "messageId s \<le> messageId (resume_k k reply s)"
proof (cases k)
  case KCaller
  then show ?thesis by simp
next
  case (KAuthenticate p)
  then show ?thesis by (simp add: Let_def split: server_body.splits)
next
  case (KActionTypes controller actionName c)
  have "messageId s \<le> messageId (return_cached c v t)"
    if "store_types controller actionName c types s = Inr t" for types t v
    using messageId_return_cached [of t c v] messageId_store_types [OF that] by simp
  with KActionTypes show ?thesis
    by (auto split: server_body.splits sum.splits dest: messageId_store_types)
qed

lemma messageId_getActionTypes: "messageId s \<le> messageId (getActionTypes controller actionName c s)"
proof (cases "ensure_controller controller s")
  case (Inl e)
  then show ?thesis by (simp add: getActionTypes_def)
next
  case (Inr t)
  have t: "messageId t = messageId s"
    using Inr by (rule messageId_ensure_controller)
  have a: "messageId t \<le> messageId (return_cached c v t)" for v
    by (rule messageId_return_cached)
  have b: "sendMessage x t = (sid, u) \<Longrightarrow> messageId u = messageId t + 1" for x sid u
    by (metis messageId_sendMessage snd_conv)
  show ?thesis
    using Inr t a
    by (auto simp: getActionTypes_def Let_def dest!: b split: sum.splits prod.splits)
qed

lemma messageId_stream: "messageId s \<le> messageId (snd (stream controller name args s))"
proof -
  have "messageId t \<le> messageId (getActionTypes controller name c t)" for c t
    by (rule messageId_getActionTypes)
  from this [of "(snd (new_call s))\<lparr>streams := x\<rparr>" for x] show ?thesis
    by (simp add: stream_def Let_def split: prod.splits) (simp add: new_call_def)
qed

lemma messageId_call_getActionTypes:
  "messageId s \<le> messageId (snd (call_getActionTypes controller actionName s))"
proof -
  have "messageId t \<le> messageId (getActionTypes controller actionName c t)" for c t
    by (rule messageId_getActionTypes)
  from this [of "(snd (new_call s))\<lparr>streams := x\<rparr>" for x] show ?thesis
    by (simp add: call_getActionTypes_def Let_def split: prod.splits) (simp add: new_call_def)
qed

lemma messageId_call_connect [simp]: "messageId (snd (call_connect s)) = messageId s"
  by (simp add: call_connect_def new_call_def)

lemma messageId_subject_next: "messageId s \<le> messageId (subject_next sid v s)"
proof -
  have a: "messageId t \<le> messageId (resume_k k v t)" for k t
    by (rule messageId_resume_k)
  have b: "stream_reply c v t = Inr u \<Longrightarrow> messageId u = messageId t" for c t u
    by (rule messageId_stream_reply)
  have d: "stream_reply c v t = Inl (e, u) \<Longrightarrow> messageId u = messageId t" for c t e u
    by (rule messageId_stream_reply_thrown)
  show ?thesis
    unfolding subject_next_def Let_def
    by (auto split: option.splits subscriber.splits sum.splits prod.splits dest!: b d
        intro: order_trans [OF _ a])
qed

lemma messageId_onMessage: "onMessage ev s = Inr t \<Longrightarrow> messageId s \<le> messageId t"
  by (auto simp: onMessage_def messageId_subject_next split: option.splits if_splits)

lemma messageId_observable_subscribe [simp]: "messageId (observable_subscribe c s) = messageId s"
  by (auto simp: observable_subscribe_def Let_def send_def upd_stream_def
      split: option.splits return_value.splits sum.splits)

lemma messageId_observable_unsubscribe [simp]:
  "messageId (observable_unsubscribe c i s) = messageId s"
  by (auto simp: observable_unsubscribe_def Let_def send_def upd_stream_def
      split: option.splits return_value.splits sum.splits)

lemma messageId_collection_unsubscribe [simp]:
  "messageId (collection_unsubscribe c s) = messageId s"
  by (auto simp: collection_unsubscribe_def Let_def send_def upd_stream_def
      split: option.splits return_value.splits sum.splits)

lemma messageId_handle: "messageId s \<le> messageId (handle e s)"
proof (cases e)
  case (SocketMessage ev)
  then show ?thesis by (auto split: sum.splits dest: messageId_onMessage)
next
  case (Release n i)
  then show ?thesis by (auto split: sum.splits dest: messageId_release)
qed (simp_all add: messageId_onopen messageId_stream messageId_call_getActionTypes disconnect_def)

lemma messageId_step: "messageId s \<le> messageId (step e s)"
  by (simp add: step_def messageId_handle)

lemma messageId_run: "messageId s \<le> messageId (run es s)"
proof (induction es arbitrary: s)
  case Nil
  then show ?case by (simp add: run_def)
next
  case (Cons e es)
  have "messageId s \<le> messageId (step e s)" by (rule messageId_step)
  also have "\<dots> \<le> messageId (run es (step e s))" by (rule Cons.IH)
  finally show ?case by (simp add: run_def)
qed

section \<open>Claim C4: allocation of message identifiers\<close>

text \<open>
  C4, as amended. Message identifiers are allocated strictly increasing and are never
  reused during the whole lifetime of the client: the first one is 1, every call of
  \<open>sendMessage\<close> takes the counter plus one, and whatever happens between two calls
  (replies, errors, disconnects, new connections) the later call gets the greater
  identifier. \<open>disconnect\<close> leaves the counter as it is, and so does a new connection:
  no fresh identifier space starts.
\<close>

theorem C4_ids_increase_for_ever:
  "fst (sendMessage m (init tok regs)) = 1
   \<and> fst (sendMessage m s) = messageId s + 1
   \<and> fst (sendMessage m s) < fst (sendMessage m' (run es (snd (sendMessage m s))))
   \<and> messageId (disconnect s) = messageId s
   \<and> messageId (snd (doConnect s)) = messageId s"
proof -
  have "messageId (snd (sendMessage m s)) \<le> messageId (run es (snd (sendMessage m s)))"
    by (rule messageId_run)
  then show ?thesis
    by (simp add: init_def disconnect_def doConnect_def)
qed

text \<open>
  C4 as stated fails: a client connects and sends a message (identifier 1), disconnects,
  connects again on a new socket and sends another message. The new connection does not
  start again from 1: the identifier is 2.
\<close>

theorem C4_counterexample:
  "fst (sendMessage (ActionTypes ''c'' ''a'')
         (run [Disconnect, Connect, SocketOpen 1]
           (snd (sendMessage (ActionTypes ''c'' ''a'')
                  (run [Connect, SocketOpen 0] (init None []))))))
   \<noteq> 1
   \<and> socket (run [Disconnect, Connect, SocketOpen 1]
           (snd (sendMessage (ActionTypes ''c'' ''a'')
                  (run [Connect, SocketOpen 0] (init None []))))) = Some 1"
  by code_simp

section \<open>Routing of replies to one-shot calls\<close>

lemma subjects_connect [simp]: "subjects (connect k s) = subjects s"
  by (simp add: connect_def doConnect_def split: option.splits prod.splits)

lemma replies_connect [simp]: "replies (connect k s) = replies s"
  by (simp add: connect_def doConnect_def split: option.splits prod.splits)

lemma subjects_run_cont_ok [simp]: "subjects (run_cont None k s) = subjects s"
  by (cases k) (auto simp: send_def settle_def split: option.splits)

lemma replies_run_cont_ok [simp]: "replies (run_cont None k s) = replies s"
  by (cases k) (auto simp: send_def settle_def split: option.splits)

lemma subjects_conts_ok [simp]:
  "subjects (foldl (\<lambda>t k. run_cont None k t) s ks) = subjects s"
  by (induction ks arbitrary: s) simp_all

lemma replies_conts_ok [simp]:
  "replies (foldl (\<lambda>t k. run_cont None k t) s ks) = replies s"
  by (induction ks arbitrary: s) simp_all

lemma subjects_run_jobs [simp]: "subjects (run_jobs s) = subjects s"
  by (simp add: run_jobs_def)

lemma replies_run_jobs [simp]: "replies (run_jobs s) = replies s"
  by (simp add: run_jobs_def)

lemma oneShot_fst [simp]: "fst (oneShot m s) = messageId s + 1"
  by (simp add: oneShot_def sendMessage_def Let_def)

lemma oneShot_messageId [simp]: "messageId (snd (oneShot m s)) = messageId s + 1"
  by (simp add: oneShot_def sendMessage_def Let_def)

lemma oneShot_subjects:
  "subjects (snd (oneShot m s)) =
     (subjects s)(messageId s + 1 \<mapsto>
        \<lparr>teardown = messageId s + 1, isStopped = False, thrownError = None,
         observer = FirstAndClose KCaller, emitted = [], promise = None, tornDown = 0\<rparr>)"
  by (simp add: oneShot_def sendMessage_def Let_def firstAndClose_def upd_subject_def)

lemma oneShot_replies:
  "replies (snd (oneShot m s)) = (replies s)(messageId s + 1 \<mapsto> messageId s + 1)"
  by (simp add: oneShot_def sendMessage_def Let_def firstAndClose_def upd_subject_def)

lemma issue_Cons:
  assumes "issue (m # ms) s = (sids, s1)"
  obtains rest where "issue ms (snd (oneShot m s)) = (rest, s1)"
    and "sids = (messageId s + 1) # rest"
proof -
  obtain sid t where o: "oneShot m s = (sid, t)" by (cases "oneShot m s")
  obtain rest u where i: "issue ms t = (rest, u)" by (cases "issue ms t")
  have "sid = messageId s + 1" using oneShot_fst [of m s] o by simp
  with assms o i have "issue ms (snd (oneShot m s)) = (rest, s1)"
    and "sids = (messageId s + 1) # rest" by simp_all
  then show thesis by (rule that)
qed

lemma issue_old:
  "issue ms s = (sids, s1) \<Longrightarrow> i \<le> messageId s \<Longrightarrow>
     subjects s1 i = subjects s i \<and> replies s1 i = replies s i"
proof (induction ms arbitrary: s sids)
  case Nil
  then show ?case by simp
next
  case (Cons m ms)
  obtain rest where r: "issue ms (snd (oneShot m s)) = (rest, s1)"
    using Cons.prems(1) by (rule issue_Cons)
  have "subjects s1 i = subjects (snd (oneShot m s)) i \<and> replies s1 i = replies (snd (oneShot m s)) i"
    using Cons.IH [OF r] Cons.prems(2) by simp
  then show ?case
    using Cons.prems(2) by (simp add: oneShot_subjects oneShot_replies)
qed

lemma issue_pending:
  "issue ms s = (sids, s1) \<Longrightarrow> sid \<in> set sids \<Longrightarrow>
     messageId s < sid \<and> replies s1 sid = Some sid \<and>
     subjects s1 sid =
       Some \<lparr>teardown = sid, isStopped = False, thrownError = None,
             observer = FirstAndClose KCaller, emitted = [], promise = None, tornDown = 0\<rparr>"
proof (induction ms arbitrary: s sids)
  case Nil
  then show ?case by simp
next
  case (Cons m ms)
  obtain rest where r: "issue ms (snd (oneShot m s)) = (rest, s1)"
    and sids: "sids = (messageId s + 1) # rest"
    using Cons.prems(1) by (rule issue_Cons)
  show ?case
  proof (cases "sid = messageId s + 1")
    case True
    have "subjects s1 sid = subjects (snd (oneShot m s)) sid \<and> replies s1 sid = replies (snd (oneShot m s)) sid"
      using issue_old [OF r, of sid] True by simp
    then show ?thesis
      using True by (simp add: oneShot_subjects oneShot_replies)
  next
    case False
    then have "sid \<in> set rest" using Cons.prems(2) sids by simp
    from Cons.IH [OF r this] show ?thesis by simp
  qed
qed

lemma issue_distinct: "issue ms s = (sids, s1) \<Longrightarrow> distinct sids"
proof (induction ms arbitrary: s sids)
  case Nil
  then show ?case by simp
next
  case (Cons m ms)
  obtain rest where r: "issue ms (snd (oneShot m s)) = (rest, s1)"
    and sids: "sids = (messageId s + 1) # rest"
    using Cons.prems(1) by (rule issue_Cons)
  have "messageId s + 1 \<notin> set rest"
    using issue_pending [OF r, of "messageId s + 1"] by auto
  with Cons.IH [OF r] sids show ?case by simp
qed

lemma first_reply:
  assumes "replies t i = Some i"
    and "subjects t i =
       Some \<lparr>teardown = i, isStopped = False, thrownError = None,
             observer = FirstAndClose KCaller, emitted = [], promise = None, tornDown = 0\<rparr>"
    and "\<not> entity_message b" and "b \<noteq> Channel"
  shows "subjects (step (SocketMessage (Some (i, b))) t) =
           (subjects t)(i \<mapsto>
              \<lparr>teardown = i, isStopped = True, thrownError = None, observer = NoSubscriber,
               emitted = [(i, b)], promise = Some (Resolved (RReply (i, b))), tornDown = 1\<rparr>)"
    and "replies (step (SocketMessage (Some (i, b))) t) = (replies t)(i := None)"
  using assms
  by (simp_all add: step_def onMessage_def subject_next_def Let_def upd_subject_def close_def
      tearDown_def noteTearDown_def complete_def)

lemma late_reply:
  assumes "replies t i = None" and "\<not> entity_message b" and "b \<noteq> Channel"
  shows "subjects (step (SocketMessage (Some (i, b))) t) = subjects t"
    and "replies (step (SocketMessage (Some (i, b))) t) = replies t"
  using assms by (simp_all add: step_def onMessage_def)

lemma find_app:
  "find P (xs @ ys) = (case find P xs of None \<Rightarrow> find P ys | Some x \<Rightarrow> Some x)"
  by (induction xs) simp_all

lemma deliver_Cons: "deliver (f # fs) s = deliver fs (step (SocketMessage (Some f)) s)"
  by (simp add: deliver_def run_def)

lemma deliver_routes:
  assumes "\<forall>f \<in> set fs. fst f \<in> I \<and> \<not> entity_message (snd f) \<and> snd f \<noteq> Channel"
    and "\<forall>sid \<in> I. routed seen t sid"
  shows "\<forall>sid \<in> I. routed (seen @ fs) (deliver fs t) sid"
  using assms
proof (induction fs arbitrary: t seen)
  case Nil
  then show ?case by (simp add: deliver_def run_def)
next
  case (Cons g fs)
  obtain i b where g: "g = (i, b)" by (cases g)
  have gi: "i \<in> I" and gb: "\<not> entity_message b" "b \<noteq> Channel"
    using Cons.prems(1) g by auto
  let ?t = "step (SocketMessage (Some g)) t"
  have inv: "\<forall>sid \<in> I. routed (seen @ [g]) ?t sid"
  proof
    fix sid assume sid: "sid \<in> I"
    have old: "routed seen t sid" using Cons.prems(2) sid by blast
    have oldi: "routed seen t i" using Cons.prems(2) gi by blast
    show "routed (seen @ [g]) ?t sid"
    proof (cases "find (\<lambda>f. fst f = i) seen")
      case None
      with oldi have p: "replies t i = Some i"
        "subjects t i =
          Some \<lparr>teardown = i, isStopped = False, thrownError = None,
                observer = FirstAndClose KCaller, emitted = [], promise = None, tornDown = 0\<rparr>"
        by (simp_all add: routed_def)
      show ?thesis
      proof (cases "sid = i")
        case True
        then show ?thesis
          using None by (simp add: routed_def g find_app first_reply [OF p gb])
      next
        case False
        then have "find (\<lambda>f. fst f = sid) (seen @ [g]) = find (\<lambda>f. fst f = sid) seen"
          by (simp add: g find_app split: option.splits)
        then show ?thesis
          using old False by (simp add: routed_def g first_reply [OF p gb] split: option.splits)
      qed
    next
      case (Some f)
      with oldi have p: "replies t i = None" by (simp add: routed_def)
      have "find (\<lambda>f. fst f = sid) (seen @ [g]) = find (\<lambda>f. fst f = sid) seen"
        using Some old by (cases "sid = i") (simp_all add: g find_app split: option.splits)
      then show ?thesis
        using old by (simp add: routed_def g late_reply [OF p gb] split: option.splits)
    qed
  qed
  have rest: "\<forall>f \<in> set fs. fst f \<in> I \<and> \<not> entity_message (snd f) \<and> snd f \<noteq> Channel"
    using Cons.prems(1) by simp
  from Cons.IH [OF rest inv] show ?case
    by (simp add: deliver_Cons)
qed

section \<open>Claims C6 and C7: closing a subject, and the first reply\<close>

lemma sent_settle [simp]: "sent (settle c out s) = sent s"
  by (simp add: settle_def split: option.splits)

lemma sent_upd_subject [simp]: "sent (upd_subject sid f s) = sent s"
  by (simp add: upd_subject_def split: option.splits)

lemma sent_noteTearDown [simp]: "sent (noteTearDown sid s) = sent s"
  by (simp add: noteTearDown_def)

lemma sent_tearDown [simp]: "sent (tearDown sid s) = sent s"
  by (simp add: tearDown_def noteTearDown_def split: option.splits)

lemma sent_fail_k [simp]: "sent (fail_k k e s) = sent s"
  by (cases k) simp_all

lemma sent_complete [simp]: "sent (complete sid s) = sent s"
  by (simp add: complete_def split: option.splits subscriber.splits)

lemma sent_close [simp]: "sent (close sid s) = sent s"
  by (simp add: close_def)

lemma subjects_fail_k [simp]: "subjects (fail_k k e s) = subjects s"
  by (cases k) (simp_all add: settle_def split: option.splits)

lemma replies_fail_k [simp]: "replies (fail_k k e s) = replies s"
  by (cases k) (simp_all add: settle_def split: option.splits)

lemma close_shape:
  assumes "subjects s sid = Some sub"
  shows "\<exists>x. subjects (close sid s) sid = Some x \<and> isStopped x \<and> observer x = NoSubscriber
           \<and> teardown x = teardown sub \<and> replies (close sid s) (teardown sub) = None"
  using assms
  by (cases "observer sub")
     (simp_all add: close_def tearDown_def noteTearDown_def complete_def upd_subject_def)

lemma upd_subject_same: "subjects s sid = Some y \<Longrightarrow> f y = y \<Longrightarrow> upd_subject sid f s = s"
  by (simp add: upd_subject_def map_upd_triv)

lemma close_closed:
  assumes "subjects t sid = Some x" and "isStopped x" and "observer x = NoSubscriber"
    and "replies t (teardown x) = None"
  shows "close sid t = noteTearDown sid t"
proof -
  let ?y = "x\<lparr>tornDown := tornDown x + 1\<rparr>"
  have a: "(replies t)(teardown x := None) = replies t"
    using assms(4) by (simp add: fun_upd_idem)
  have b: "tearDown sid t = noteTearDown sid t"
    using assms(1) by (simp add: tearDown_def a)
  have c: "subjects (noteTearDown sid t) sid = Some ?y"
    using assms(1) by (simp add: noteTearDown_def upd_subject_def)
  have d: "?y\<lparr>isStopped := True, observer := NoSubscriber\<rparr> = ?y"
    using assms(2,3) by simp
  have "complete sid (noteTearDown sid t)
          = upd_subject sid (\<lambda>x. x\<lparr>isStopped := True, observer := NoSubscriber\<rparr>) (noteTearDown sid t)"
    using assms(3) c by (simp add: complete_def)
  also have "\<dots> = noteTearDown sid t"
    using c d by (rule upd_subject_same)
  finally show ?thesis by (simp add: close_def b)
qed

lemma close_twice: "close sid (close sid s) = noteTearDown sid (close sid s)"
proof (cases "subjects s sid")
  case None
  then show ?thesis
    by (simp add: close_def tearDown_def complete_def noteTearDown_def upd_subject_def)
next
  case (Some sub)
  from close_shape [OF Some] obtain x where
    "subjects (close sid s) sid = Some x" "isStopped x" "observer x = NoSubscriber"
    "replies (close sid s) (teardown x) = None"
    by auto
  then show ?thesis by (rule close_closed)
qed

lemma late_frame_dropped:
  assumes "subjects s sid = Some sub" and "teardown sub = sid"
    and "\<not> entity_message b" and "b \<noteq> Channel"
  shows "onMessage (Some (sid, b)) (close sid s) =
           Inr ((close sid s)\<lparr>logged := logged (close sid s) @ [NoRepliesCallback sid]\<rparr>)"
proof -
  have "replies (close sid s) sid = None"
    using close_shape [OF assms(1)] assms(2) by auto
  then show ?thesis
    using assms(3,4) by (simp add: onMessage_def)
qed

lemma outcomes_upd_subject [simp]: "outcomes (upd_subject sid f s) = outcomes s"
  by (simp add: upd_subject_def split: option.splits)

lemma logged_upd_subject [simp]: "logged (upd_subject sid f s) = logged s"
  by (simp add: upd_subject_def split: option.splits)

lemma connectionPromise_upd_subject [simp]:
  "connectionPromise (upd_subject sid f s) = connectionPromise s"
  by (simp add: upd_subject_def split: option.splits)

lemma connected_upd_subject [simp]: "connected (upd_subject sid f s) = connected s"
  by (simp add: upd_subject_def split: option.splits)

lemma stopped_subject:
  assumes "subjects s sid = Some sub" and "observer sub = FirstAndClose k"
  shows "subjects (close sid (upd_subject sid (\<lambda>x. x\<lparr>observer := NoSubscriber, promise := p\<rparr>) s)) sid
           = Some (sub\<lparr>isStopped := True, observer := NoSubscriber, promise := p,
                      tornDown := tornDown sub + 1\<rparr>)"
    and "replies (close sid (upd_subject sid (\<lambda>x. x\<lparr>observer := NoSubscriber, promise := p\<rparr>) s))
           = (replies s)(teardown sub := None)"
    and "outcomes (close sid (upd_subject sid (\<lambda>x. x\<lparr>observer := NoSubscriber, promise := p\<rparr>) s))
           = outcomes s"
    and "logged (close sid (upd_subject sid (\<lambda>x. x\<lparr>observer := NoSubscriber, promise := p\<rparr>) s))
           = logged s"
    and "connectionPromise (close sid (upd_subject sid (\<lambda>x. x\<lparr>observer := NoSubscriber, promise := p\<rparr>) s))
           = connectionPromise s"
    and "connected (close sid (upd_subject sid (\<lambda>x. x\<lparr>observer := NoSubscriber, promise := p\<rparr>) s))
           = connected s"
  using assms
  by (simp_all add: upd_subject_def close_def tearDown_def noteTearDown_def complete_def)




text \<open>
  C7, as amended. \<open>firstAndClose()\<close> resolves with the first value the subject passes on,
  whatever kind of frame it is, an \<open>error\<close> frame included; then it removes the routing
  entry of the exchange and completes the subject, and the awaiting function goes on
  with the reply. It rejects with the error of the subject when the subject fails, which
  is how a failed \<open>connect()\<close> arrives, and with \<open>EmptyError\<close> when the subject completes
  or is closed before any reply; the routing entry is removed in these cases as well.
  An \<open>error\<close> frame as the first reply becomes a failure in the awaiting function only:
  \<open>getActionTypes\<close> rejects its call with an error that carries the message of the
  frame; \<open>authenticate\<close> throws that error inside the \<open>onopen\<close> handler, where nothing
  catches it, so it stays unhandled and the connection attempt stays pending.
\<close>

theorem C7_first_reply_resolves:
  assumes "subjects s sid = Some sub" and "\<not> isStopped sub" and "observer sub = FirstAndClose k"
  shows "(\<exists>t. subject_next sid v s = resume_k k v t
            \<and> subjects t sid =
                Some (sub\<lparr>isStopped := True, observer := NoSubscriber,
                          emitted := emitted sub @ [v],
                          promise := Some (Resolved (RReply v)),
                          tornDown := tornDown sub + 1\<rparr>)
            \<and> replies t = (replies s)(teardown sub := None))
       \<and> (\<exists>t. subject_error sid e s = fail_k k e t
            \<and> subjects t sid =
                Some (sub\<lparr>isStopped := True, thrownError := Some e, observer := NoSubscriber,
                          promise := Some (Rejected e),
                          tornDown := tornDown sub + 1\<rparr>)
            \<and> replies t = (replies s)(teardown sub := None))
       \<and> (\<exists>t. complete sid s = fail_k k EmptyError t
            \<and> subjects t sid =
                Some (sub\<lparr>isStopped := True, observer := NoSubscriber,
                          promise := Some (Rejected EmptyError),
                          tornDown := tornDown sub + 1\<rparr>)
            \<and> replies t = (replies s)(teardown sub := None))
       \<and> (\<exists>t. close sid s = fail_k k EmptyError t
            \<and> subjects t sid =
                Some (sub\<lparr>isStopped := True, observer := NoSubscriber,
                          promise := Some (Rejected EmptyError),
                          tornDown := tornDown sub + 2\<rparr>)
            \<and> replies t = (replies s)(teardown sub := None))
       \<and> (k = KActionTypes controller actionName c \<and> outcomes s c = None \<longrightarrow>
            outcomes (subject_next sid (i, ErrorFrame m) s) c = Some (Rejected (RemoteError m))
            \<and> map_option promise (subjects (subject_next sid (i, ErrorFrame m) s) sid)
                = Some (Some (Resolved (RReply (i, ErrorFrame m)))))
       \<and> (k = KAuthenticate p \<longrightarrow>
            logged (subject_next sid (i, ErrorFrame m) s) = logged s @ [Unhandled (RemoteError m)]
            \<and> connectionPromise (subject_next sid (i, ErrorFrame m) s) = connectionPromise s
            \<and> connected (subject_next sid (i, ErrorFrame m) s) = connected s
            \<and> map_option promise (subjects (subject_next sid (i, ErrorFrame m) s) sid)
                = Some (Some (Resolved (RReply (i, ErrorFrame m)))))"
proof (intro conjI impI)
  let ?t = "close sid (upd_subject sid
              (\<lambda>x. x\<lparr>observer := NoSubscriber, promise := Some (Resolved (RReply v))\<rparr>)
              (upd_subject sid (\<lambda>x. x\<lparr>emitted := emitted x @ [v]\<rparr>) s))"
  have "subject_next sid v s = resume_k k v ?t"
    using assms by (simp add: subject_next_def Let_def)
  moreover have "subjects ?t sid =
      Some (sub\<lparr>isStopped := True, observer := NoSubscriber, emitted := emitted sub @ [v],
                promise := Some (Resolved (RReply v)), tornDown := tornDown sub + 1\<rparr>)"
    using assms
    by (simp add: upd_subject_def close_def tearDown_def noteTearDown_def complete_def)
  moreover have "replies ?t = (replies s)(teardown sub := None)"
    using assms
    by (simp add: upd_subject_def close_def tearDown_def noteTearDown_def complete_def)
  ultimately show "\<exists>t. subject_next sid v s = resume_k k v t
            \<and> subjects t sid =
                Some (sub\<lparr>isStopped := True, observer := NoSubscriber,
                          emitted := emitted sub @ [v],
                          promise := Some (Resolved (RReply v)),
                          tornDown := tornDown sub + 1\<rparr>)
            \<and> replies t = (replies s)(teardown sub := None)"
    by blast
next
  let ?t = "tearDown sid (upd_subject sid
              (\<lambda>x. x\<lparr>isStopped := True, thrownError := Some e, observer := NoSubscriber,
                     promise := Some (Rejected e)\<rparr>) s)"
  have "subject_error sid e s = fail_k k e ?t"
    using assms by (simp add: subject_error_def)
  moreover have "subjects ?t sid =
      Some (sub\<lparr>isStopped := True, thrownError := Some e, observer := NoSubscriber,
                promise := Some (Rejected e), tornDown := tornDown sub + 1\<rparr>)"
    using assms by (simp add: upd_subject_def tearDown_def noteTearDown_def)
  moreover have "replies ?t = (replies s)(teardown sub := None)"
    using assms by (simp add: upd_subject_def tearDown_def noteTearDown_def)
  ultimately show "\<exists>t. subject_error sid e s = fail_k k e t
            \<and> subjects t sid =
                Some (sub\<lparr>isStopped := True, thrownError := Some e, observer := NoSubscriber,
                          promise := Some (Rejected e),
                          tornDown := tornDown sub + 1\<rparr>)
            \<and> replies t = (replies s)(teardown sub := None)"
    by blast
next
  let ?t = "tearDown sid (upd_subject sid
              (\<lambda>x. x\<lparr>isStopped := True, observer := NoSubscriber,
                     promise := Some (Rejected EmptyError)\<rparr>) s)"
  have "complete sid s = fail_k k EmptyError ?t"
    using assms by (simp add: complete_def)
  moreover have "subjects ?t sid =
      Some (sub\<lparr>isStopped := True, observer := NoSubscriber,
                promise := Some (Rejected EmptyError), tornDown := tornDown sub + 1\<rparr>)"
    using assms by (simp add: upd_subject_def tearDown_def noteTearDown_def)
  moreover have "replies ?t = (replies s)(teardown sub := None)"
    using assms by (simp add: upd_subject_def tearDown_def noteTearDown_def)
  ultimately show "\<exists>t. complete sid s = fail_k k EmptyError t
            \<and> subjects t sid =
                Some (sub\<lparr>isStopped := True, observer := NoSubscriber,
                          promise := Some (Rejected EmptyError),
                          tornDown := tornDown sub + 1\<rparr>)
            \<and> replies t = (replies s)(teardown sub := None)"
    by blast
next
  let ?t = "tearDown sid (upd_subject sid
              (\<lambda>x. x\<lparr>isStopped := True, observer := NoSubscriber,
                     promise := Some (Rejected EmptyError)\<rparr>) (tearDown sid s))"
  have "close sid s = fail_k k EmptyError ?t"
    using assms
    by (simp add: close_def complete_def tearDown_def noteTearDown_def upd_subject_def)
  moreover have "subjects ?t sid =
      Some (sub\<lparr>isStopped := True, observer := NoSubscriber,
                promise := Some (Rejected EmptyError), tornDown := tornDown sub + 2\<rparr>)"
    using assms by (simp add: upd_subject_def tearDown_def noteTearDown_def)
  moreover have "replies ?t = (replies s)(teardown sub := None)"
    using assms by (simp add: upd_subject_def tearDown_def noteTearDown_def)
  ultimately show "\<exists>t. close sid s = fail_k k EmptyError t
            \<and> subjects t sid =
                Some (sub\<lparr>isStopped := True, observer := NoSubscriber,
                          promise := Some (Rejected EmptyError),
                          tornDown := tornDown sub + 2\<rparr>)
            \<and> replies t = (replies s)(teardown sub := None)"
    by blast
next
  let ?v = "(i, ErrorFrame m)"
  let ?s1 = "upd_subject sid (\<lambda>x. x\<lparr>emitted := emitted x @ [?v]\<rparr>) s"
  let ?t = "close sid (upd_subject sid
              (\<lambda>x. x\<lparr>observer := NoSubscriber, promise := Some (Resolved (RReply ?v))\<rparr>) ?s1)"
  have s1: "subjects ?s1 sid = Some (sub\<lparr>emitted := emitted sub @ [?v]\<rparr>)"
    using assms(1) by (simp add: upd_subject_def)
  have o1: "observer (sub\<lparr>emitted := emitted sub @ [?v]\<rparr>) = FirstAndClose k"
    using assms(3) by simp
  have next': "subject_next sid ?v s = resume_k k ?v ?t"
    using assms by (simp add: subject_next_def Let_def)
  note shape = stopped_subject [OF s1 o1, of "Some (Resolved (RReply ?v))"]
  {
    assume k: "k = KActionTypes controller actionName c \<and> outcomes s c = None"
    have "subject_next sid ?v s = settle c (Rejected (RemoteError m)) ?t"
      using next' k by simp
    moreover have "outcomes ?t c = None"
      using shape(3) k by simp
    ultimately show "outcomes (subject_next sid ?v s) c = Some (Rejected (RemoteError m))"
      by (simp add: settle_def)
    have "subjects (subject_next sid ?v s) sid = subjects ?t sid"
      using next' k by (simp add: settle_def split: option.splits)
    then show "map_option promise (subjects (subject_next sid ?v s) sid)
                = Some (Some (Resolved (RReply ?v)))"
      using shape(1) by simp
  }
  {
    assume k: "k = KAuthenticate p"
    have eq: "subject_next sid ?v s = ?t\<lparr>logged := logged ?t @ [Unhandled (RemoteError m)]\<rparr>"
      using next' k by (simp add: Let_def)
    show "logged (subject_next sid ?v s) = logged s @ [Unhandled (RemoteError m)]"
      unfolding eq using shape(4) by simp
    show "connectionPromise (subject_next sid ?v s) = connectionPromise s"
      unfolding eq using shape(5) by simp
    show "connected (subject_next sid ?v s) = connected s"
      unfolding eq using shape(6) by simp
    show "map_option promise (subjects (subject_next sid ?v s) sid)
                = Some (Some (Resolved (RReply ?v)))"
      unfolding eq using shape(1) by simp
  }
qed

text \<open>The one-shot call of \<open>getActionTypes\<close> on a fresh client is answered with an
  \<open>error\<close> frame: the promise of \<open>firstAndClose()\<close> is resolved with that frame, not
  rejected.\<close>

theorem C7_counterexample:
  "map_option promise
     (subjects (deliver [(1, ErrorFrame ''unknown action'')]
                  (snd (oneShot (ActionTypes ''c'' ''a'') (init None [])))) 1)
   = Some (Some (Resolved (RReply (1, ErrorFrame ''unknown action''))))"
  by code_simp

text \<open>A call of \<open>getActionTypes\<close> on a fresh client, whose exchange 1 is answered with an
  \<open>error\<close> frame: the promise of \<open>firstAndClose()\<close> resolves with the frame, and the call
  is rejected with its message. And the exchange 1 of \<open>authenticate\<close> on the client with
  a token, answered with an \<open>error\<close> frame: the error stays unhandled, and the connection
  attempt 0 stays pending.\<close>

theorem C7_witness:
  "subjects (snd (call_getActionTypes ''c'' ''a'' (init None []))) 1
     = Some \<lparr>teardown = 1, isStopped = False, thrownError = None,
             observer = FirstAndClose (KActionTypes ''c'' ''a'' 0), emitted = [],
             promise = None, tornDown = 0\<rparr>
   \<and> outcomes (snd (call_getActionTypes ''c'' ''a'' (init None []))) 0 = None
   \<and> outcomes (subject_next 1 (1, ErrorFrame ''unknown action'')
                 (snd (call_getActionTypes ''c'' ''a'' (init None [])))) 0
       = Some (Rejected (RemoteError ''unknown action''))
   \<and> map_option promise
       (subjects (subject_next 1 (1, ErrorFrame ''unknown action'')
                    (snd (call_getActionTypes ''c'' ''a'' (init None [])))) 1)
     = Some (Some (Resolved (RReply (1, ErrorFrame ''unknown action''))))
   \<and> subjects token_client 1
     = Some \<lparr>teardown = 1, isStopped = False, thrownError = None,
             observer = FirstAndClose (KAuthenticate 0), emitted = [],
             promise = None, tornDown = 0\<rparr>
   \<and> logged (subject_next 1 (1, ErrorFrame ''denied'') token_client)
     = [Unhandled (RemoteError ''denied'')]
   \<and> connectionPromise (subject_next 1 (1, ErrorFrame ''denied'') token_client)
     = Some (0, [ThenCaller 0, ThenSend (1, Authenticate (Some ''secret'')) 1])"
proof -
  let ?s = "snd (call_getActionTypes ''c'' ''a'' (init None []))"
  let ?sub = "\<lparr>teardown = 1, isStopped = False, thrownError = None,
         observer = FirstAndClose (KActionTypes ''c'' ''a'' 0), emitted = [], promise = None,
         tornDown = 0\<rparr>"
  let ?auth = "\<lparr>teardown = 1, isStopped = False, thrownError = None,
         observer = FirstAndClose (KAuthenticate 0), emitted = [], promise = None,
         tornDown = 0\<rparr>"
  have a: "subjects ?s 1 = Some ?sub"
    by code_simp
  have b: "\<not> isStopped ?sub" and c: "observer ?sub = FirstAndClose (KActionTypes ''c'' ''a'' 0)"
    by simp_all
  have d: "outcomes ?s 0 = None"
    by code_simp
  have types: "outcomes (subject_next 1 (1, ErrorFrame ''unknown action'') ?s) 0
       = Some (Rejected (RemoteError ''unknown action''))
   \<and> map_option promise (subjects (subject_next 1 (1, ErrorFrame ''unknown action'') ?s) 1)
     = Some (Some (Resolved (RReply (1, ErrorFrame ''unknown action''))))"
    using C7_first_reply_resolves [OF a b c, where controller = "''c''" and actionName = "''a''"
        and c = 0 and i = 1 and m = "''unknown action''"] d
    by simp
  have e: "subjects token_client 1 = Some ?auth"
    and f: "logged token_client = []"
    and g: "connectionPromise token_client
              = Some (0, [ThenCaller 0, ThenSend (1, Authenticate (Some ''secret'')) 1])"
    unfolding token_client_def by code_simp+
  have h: "\<not> isStopped ?auth" and i: "observer ?auth = FirstAndClose (KAuthenticate 0)"
    by simp_all
  have auth: "logged (subject_next 1 (1, ErrorFrame ''denied'') token_client)
     = [Unhandled (RemoteError ''denied'')]
   \<and> connectionPromise (subject_next 1 (1, ErrorFrame ''denied'') token_client)
     = Some (0, [ThenCaller 0, ThenSend (1, Authenticate (Some ''secret'')) 1])"
    using C7_first_reply_resolves [OF e h i, where p = 0 and i = 1 and m = "''denied''"] f g
    by simp
  from a d types e auth show ?thesis
    by (intro conjI) simp_all
qed

section \<open>Claim C10: the routing entry comes first, and a rejected connect reaches the subject\<close>

lemma subject_error_other:
  "sid' \<noteq> sid \<Longrightarrow> subjects (subject_error sid e s) sid' = subjects s sid'"
  by (simp add: subject_error_def upd_subject_def tearDown_def noteTearDown_def
      split: option.splits subscriber.splits)

lemma subject_error_stopped:
  "subjects s sid = Some x \<Longrightarrow> isStopped x \<Longrightarrow> subject_error sid e s = s"
  by (simp add: subject_error_def)

lemma subject_error_live:
  assumes "subjects s sid = Some x" and "\<not> isStopped x"
  shows "\<exists>y. subjects (subject_error sid e s) sid = Some y \<and> isStopped y \<and> thrownError y = Some e"
  using assms
  by (cases "observer x")
     (simp_all add: subject_error_def upd_subject_def tearDown_def noteTearDown_def)

lemma subjects_settle [simp]: "subjects (settle c out s) = subjects s"
  by (simp add: settle_def split: option.splits)

text \<open>A subject that has failed with \<open>e\<close> stays so while the waiters are rejected.\<close>

lemma run_cont_failed:
  assumes "subjects s sid = Some x" and "isStopped x" and "thrownError x = Some e"
  shows "subjects (run_cont (Some e') k s) sid = Some x"
proof (cases k)
  case (ThenSend m sid')
  then show ?thesis
    using assms
    by (cases "sid' = sid") (simp_all add: subject_error_stopped subject_error_other)
next
  case (ThenCaller c)
  then show ?thesis using assms by simp
qed

lemma waiters_failed:
  assumes "subjects s sid = Some x" and "isStopped x" and "thrownError x = Some e"
  shows "subjects (foldl (\<lambda>t w. resume_waiter (Some e') w t) s ws) sid = Some x"
  using assms
proof (induction ws arbitrary: s)
  case Nil
  then show ?case by simp
next
  case (Cons w ws)
  have "subjects (run_cont (Some e') w s) sid = Some x"
    using Cons.prems by (rule run_cont_failed)
  from Cons.IH [OF this Cons.prems(2,3)] show ?case by simp
qed

lemma run_cont_live:
  assumes "subjects s sid = Some x" and "\<not> isStopped x"
  shows "subjects (run_cont (Some e) k s) sid = Some x
         \<or> (\<exists>y. subjects (run_cont (Some e) k s) sid = Some y \<and> isStopped y \<and> thrownError y = Some e)"
proof (cases k)
  case (ThenSend m sid')
  then show ?thesis
    using assms subject_error_live [OF assms, of e]
    by (cases "sid' = sid") (simp_all add: subject_error_other)
next
  case (ThenCaller c)
  then show ?thesis using assms by simp
qed

lemma waiters_rejected:
  assumes "ThenSend m sid \<in> set ws" and "subjects s sid = Some x" and "\<not> isStopped x"
  shows "\<exists>y. subjects (foldl (\<lambda>t w. resume_waiter (Some e) w t) s ws) sid = Some y
           \<and> isStopped y \<and> thrownError y = Some e"
  using assms
proof (induction ws arbitrary: s x)
  case Nil
  then show ?case by simp
next
  case (Cons w ws)
  let ?s = "run_cont (Some e) w s"
  consider (same) "subjects ?s sid = Some x"
    | (failed) y where "subjects ?s sid = Some y" "isStopped y" "thrownError y = Some e"
    using run_cont_live [OF Cons.prems(2,3), of e w] by blast
  then show ?case
  proof cases
    case same
    show ?thesis
    proof (cases "w = ThenSend m sid")
      case True
      with same subject_error_live [OF Cons.prems(2,3), of e] Cons.prems(3)
      show ?thesis by auto
    next
      case False
      then have "ThenSend m sid \<in> set ws" using Cons.prems(1) by simp
      from Cons.IH [OF this same Cons.prems(3)] show ?thesis by simp
    qed
  next
    case failed
    from waiters_failed [OF failed, of e ws] failed show ?thesis by simp
  qed
qed

lemma rejection_reaches_subject:
  assumes "connectionPromise s = Some (p, ws)" and "ThenSend m sid \<in> set ws"
    and "subjects s sid = Some x" and "\<not> isStopped x"
  shows "\<exists>y. subjects (settle_connection p (Some e) s) sid = Some y
           \<and> isStopped y \<and> thrownError y = Some e"
proof -
  obtain k ks where ws: "ws = k # ks"
    using assms(2) by (cases ws) auto
  have "settle_connection p (Some e) s
          = foldl (\<lambda>t w. resume_waiter (Some e) w t) (s\<lparr>connectionPromise := None\<rparr>) ws"
    using assms(1) ws by (simp add: settle_connection_def)
  moreover have "subjects (s\<lparr>connectionPromise := None\<rparr>) sid = Some x"
    using assms(3) by simp
  ultimately show ?thesis
    using waiters_rejected [OF assms(2) _ assms(4), of "s\<lparr>connectionPromise := None\<rparr>" e]
    by simp
qed

lemma sendMessage_waits:
  assumes "connectionPromise s \<noteq> None \<or> \<not> connected s"
  shows "\<exists>p ws. connectionPromise (snd (sendMessage m s)) = Some (p, ws)
           \<and> ThenSend (messageId s + 1, m) (messageId s + 1) \<in> set ws"
  using assms
  by (auto simp: sendMessage_def Let_def connect_def doConnect_def split: option.splits)

lemma sendMessage_subject:
  "subjects (snd (sendMessage m s)) (messageId s + 1) =
     Some \<lparr>teardown = messageId s + 1, isStopped = False, thrownError = None,
           observer = NoSubscriber, emitted = [], promise = None, tornDown = 0\<rparr>"
  by (simp add: sendMessage_def Let_def)

lemma sendMessage_replies:
  "replies (snd (sendMessage m s)) = (replies s)(messageId s + 1 \<mapsto> messageId s + 1)"
  by (simp add: sendMessage_def Let_def)

lemma sendMessage_sent: "sent (snd (sendMessage m s)) = sent s"
  by (simp add: sendMessage_def Let_def connect_def doConnect_def split: option.splits)




section \<open>Claim C8: one attempt to connect for all callers\<close>

lemma outcomes_settle_kept: "outcomes s c = Some out \<Longrightarrow> outcomes (settle c' out' s) c = Some out"
  by (auto simp: settle_def split: option.splits)

lemma outcomes_fail_k:
  "outcomes (fail_k k e s) c = outcomes s c
   \<or> (outcomes s c = None \<and> outcomes (fail_k k e s) c = Some (Rejected e))"
  by (cases k) (simp_all add: settle_def split: option.splits)

lemma outcomes_tearDown [simp]: "outcomes (tearDown sid s) = outcomes s"
  by (simp add: tearDown_def noteTearDown_def split: option.splits)

lemma outcomes_subject_error:
  "outcomes (subject_error sid e s) c = outcomes s c
   \<or> (outcomes s c = None \<and> outcomes (subject_error sid e s) c = Some (Rejected e))"
proof (cases "subjects s sid")
  case None
  then show ?thesis by (simp add: subject_error_def)
next
  case (Some x)
  show ?thesis
  proof (cases "observer x")
    case (FirstAndClose k)
    let ?t = "tearDown sid (upd_subject sid
                (\<lambda>x. x\<lparr>isStopped := True, thrownError := Some e, observer := NoSubscriber,
                       promise := Some (Rejected e)\<rparr>) s)"
    have "outcomes ?t = outcomes s" by simp
    with outcomes_fail_k [of k e ?t c] Some FirstAndClose show ?thesis
      by (simp add: subject_error_def)
  qed (use Some in \<open>simp_all add: subject_error_def\<close>)
qed

lemma outcomes_run_cont_err:
  "outcomes (run_cont (Some e) k s) c = outcomes s c
   \<or> (outcomes s c = None \<and> outcomes (run_cont (Some e) k s) c = Some (Rejected e))"
  by (cases k) (simp_all add: outcomes_subject_error settle_def split: option.splits)

lemma outcomes_run_cont_ok:
  "outcomes (run_cont None k s) c = outcomes s c
   \<or> (outcomes s c = None \<and> outcomes (run_cont None k s) c = Some (Resolved RVoid))"
  by (cases k) (simp_all add: send_def settle_def split: option.splits)

lemma rejected_stays:
  "outcomes s c = Some (Rejected e) \<Longrightarrow>
     outcomes (foldl (\<lambda>t w. resume_waiter (Some e) w t) s ws) c = Some (Rejected e)"
proof (induction ws arbitrary: s)
  case Nil
  then show ?case by simp
next
  case (Cons w ws)
  have "outcomes (run_cont (Some e) w s) c = Some (Rejected e)"
    using outcomes_run_cont_err [of e w s c] Cons.prems by auto
  from Cons.IH [OF this] show ?case by simp
qed

lemma rejects_callers:
  "ThenCaller c \<in> set ws \<Longrightarrow> outcomes s c = None \<Longrightarrow>
     outcomes (foldl (\<lambda>t w. resume_waiter (Some e) w t) s ws) c = Some (Rejected e)"
proof (induction ws arbitrary: s)
  case Nil
  then show ?case by simp
next
  case (Cons w ws)
  let ?s = "run_cont (Some e) w s"
  show ?case
  proof (cases "outcomes ?s c")
    case None
    then have "w \<noteq> ThenCaller c"
      by (auto simp: settle_def Cons.prems(2))
    then have "ThenCaller c \<in> set ws" using Cons.prems(1) by simp
    from Cons.IH [OF this None] show ?thesis by simp
  next
    case (Some out)
    then have "outcomes ?s c = Some (Rejected e)"
      using outcomes_run_cont_err [of e w s c] Cons.prems(2) by auto
    from rejected_stays [OF this, of ws] show ?thesis by simp
  qed
qed

lemma resolved_stays:
  "outcomes s c = Some (Resolved RVoid) \<Longrightarrow>
     outcomes (foldl (\<lambda>t k. run_cont None k t) s ks) c = Some (Resolved RVoid)"
proof (induction ks arbitrary: s)
  case Nil
  then show ?case by simp
next
  case (Cons k ks)
  have "outcomes (run_cont None k s) c = Some (Resolved RVoid)"
    using outcomes_run_cont_ok [of k s c] Cons.prems by auto
  from Cons.IH [OF this] show ?case by simp
qed

lemma resolves_callers:
  "ThenCaller c \<in> set ks \<Longrightarrow> outcomes s c = None \<Longrightarrow>
     outcomes (foldl (\<lambda>t k. run_cont None k t) s ks) c = Some (Resolved RVoid)"
proof (induction ks arbitrary: s)
  case Nil
  then show ?case by simp
next
  case (Cons k ks)
  let ?s = "run_cont None k s"
  show ?case
  proof (cases "outcomes ?s c")
    case None
    then have "k \<noteq> ThenCaller c"
      by (auto simp: settle_def Cons.prems(2))
    then have "ThenCaller c \<in> set ks" using Cons.prems(1) by simp
    from Cons.IH [OF this None] show ?thesis by simp
  next
    case (Some out)
    then have "outcomes ?s c = Some (Resolved RVoid)"
      using outcomes_run_cont_ok [of k s c] Cons.prems(2) by auto
    from resolved_stays [OF this, of ks] show ?thesis by simp
  qed
qed

lemma waiters_to_jobs:
  "connected u \<Longrightarrow> connectionPromise u = None \<Longrightarrow>
     foldl (\<lambda>t w. connect w t) u ks = u\<lparr>jobs := jobs u @ ks\<rparr>"
proof (induction ks arbitrary: u)
  case Nil
  then show ?case by simp
next
  case (Cons k ks)
  have c: "connect k u = u\<lparr>jobs := jobs u @ [k]\<rparr>"
    using Cons.prems by (simp add: connect_def)
  have "foldl (\<lambda>t w. connect w t) (u\<lparr>jobs := jobs u @ [k]\<rparr>) ks
          = (u\<lparr>jobs := jobs u @ [k]\<rparr>)\<lparr>jobs := jobs (u\<lparr>jobs := jobs u @ [k]\<rparr>) @ ks\<rparr>"
    using Cons.prems by (intro Cons.IH) simp_all
  then show ?case by (simp add: c)
qed

lemma run_cont_ok_connection [simp]:
  "connected (run_cont None k s) = connected s"
  "connectionPromise (run_cont None k s) = connectionPromise s"
  "jobs (run_cont None k s) = jobs s"
  by (cases k; auto simp: send_def settle_def split: option.splits)+

text \<open>The attempt \<open>p\<close> succeeds on a client without a token: every caller that waits for
  it resolves within the turn.\<close>

lemma open_resolves_callers:
  assumes "connectionPromise s = Some (p, ws)" and "ThenCaller c \<in> set ws"
    and "outcomes s c = None" and "\<not> truthy (token s)"
  shows "outcomes (step (SocketOpen p) s) c = Some (Resolved RVoid)"
proof -
  obtain k ks where ws: "ws = k # ks"
    using assms(2) by (cases ws) auto
  let ?t0 = "s\<lparr>connected := True, connectionTries := 0, connectionPromise := None\<rparr>"
  let ?u = "run_cont None k ?t0"
  have od: "open_done p s = ?u\<lparr>jobs := jobs ?u @ ks\<rparr>"
    using assms(1) ws
    by (simp add: open_done_def settle_connection_def waiters_to_jobs)
  have st: "step (SocketOpen p) s
              = foldl (\<lambda>t k. run_cont None k t) (?u\<lparr>jobs := []\<rparr>) (jobs ?u @ ks)"
    using assms(4) by (simp add: step_def onopen_def od run_jobs_def)
  show ?thesis
  proof (cases "k = ThenCaller c")
    case True
    then have r: "outcomes (?u\<lparr>jobs := []\<rparr>) c = Some (Resolved RVoid)"
      using assms(3) by (simp add: settle_def)
    show ?thesis unfolding st using r by (rule resolved_stays)
  next
    case False
    then have mem: "ThenCaller c \<in> set (jobs ?u @ ks)"
      using assms(2) ws by simp
    show ?thesis
    proof (cases "outcomes (?u\<lparr>jobs := []\<rparr>) c")
      case None
      show ?thesis unfolding st using mem None by (rule resolves_callers)
    next
      case (Some out)
      then have r: "outcomes (?u\<lparr>jobs := []\<rparr>) c = Some (Resolved RVoid)"
        using outcomes_run_cont_ok [of k ?t0 c] assms(3) by auto
      show ?thesis unfolding st using r by (rule resolved_stays)
    qed
  qed
qed

lemma error_rejects_callers:
  assumes "connectionPromise s = Some (p, ws)" and "ThenCaller c \<in> set ws"
    and "outcomes s c = None" and "connectionTries s = 1"
  shows "outcomes (onerror p s) c = Some (Rejected CouldNotConnect)"
proof -
  obtain k ks where ws: "ws = k # ks"
    using assms(2) by (cases ws) auto
  let ?t0 = "s\<lparr>connected := False, connectionPromise := None\<rparr>"
  have "onerror p s = foldl (\<lambda>t w. resume_waiter (Some CouldNotConnect) w t) ?t0 ws"
    using assms(1,4) ws by (simp add: onerror_def Let_def settle_connection_def)
  moreover have "outcomes ?t0 c = None" using assms(3) by simp
  ultimately show ?thesis
    using rejects_callers [OF assms(2), of ?t0 CouldNotConnect] by simp
qed

lemma call_connect_waiting:
  assumes "connectionPromise s = Some (p, ws)"
  shows "snd (call_connect s) =
           s\<lparr>nextCall := nextCall s + 1, outcomes := (outcomes s)(nextCall s := None),
             connectionPromise := Some (p, ws @ [ThenCaller (nextCall s)])\<rparr>"
  using assms by (simp add: call_connect_def new_call_def connect_def)

lemma connects_waiting:
  assumes "connectionPromise s = Some (p, ws)"
  shows "connectionPromise (connects n s)
           = Some (p, ws @ map ThenCaller [nextCall s ..< nextCall s + n])
       \<and> socketCounter (connects n s) = socketCounter s
       \<and> connectionTries (connects n s) = connectionTries s
       \<and> socket (connects n s) = socket s
       \<and> token (connects n s) = token s
       \<and> (\<forall>c. outcomes (connects n s) c =
              (if nextCall s \<le> c \<and> c < nextCall s + n then None else outcomes s c))"
  using assms
proof (induction n arbitrary: s ws)
  case 0
  then show ?case by auto
next
  case (Suc n)
  let ?s = "snd (call_connect s)"
  have s1: "?s = s\<lparr>nextCall := nextCall s + 1, outcomes := (outcomes s)(nextCall s := None),
             connectionPromise := Some (p, ws @ [ThenCaller (nextCall s)])\<rparr>"
    using Suc.prems by (rule call_connect_waiting)
  have p1: "connectionPromise ?s = Some (p, ws @ [ThenCaller (nextCall s)])"
    by (simp add: s1)
  have u: "[nextCall s ..< nextCall s + Suc n] = nextCall s # [nextCall s + 1 ..< nextCall s + 1 + n]"
    by (simp add: upt_conv_Cons)
  from Suc.IH [OF p1] show ?case
    unfolding connects.simps(2) u by (auto simp: s1)
qed

lemma connects_idle:
  assumes "connectionPromise s = None" and "\<not> connected s"
  shows "connectionPromise (connects (Suc n) s)
           = Some (socketCounter s, map ThenCaller [nextCall s ..< nextCall s + Suc n])
       \<and> socketCounter (connects (Suc n) s) = socketCounter s + 1
       \<and> connectionTries (connects (Suc n) s) = connectionTries s + 1
       \<and> socket (connects (Suc n) s) = Some (socketCounter s)
       \<and> token (connects (Suc n) s) = token s
       \<and> (\<forall>c. outcomes (connects (Suc n) s) c =
              (if nextCall s \<le> c \<and> c < nextCall s + Suc n then None else outcomes s c))"
proof -
  let ?s = "snd (call_connect s)"
  have s1: "?s = s\<lparr>nextCall := nextCall s + 1, outcomes := (outcomes s)(nextCall s := None),
             connectionTries := connectionTries s + 1, socket := Some (socketCounter s),
             socketCounter := socketCounter s + 1,
             connectionPromise := Some (socketCounter s, [ThenCaller (nextCall s)])\<rparr>"
    using assms by (simp add: call_connect_def new_call_def connect_def doConnect_def)
  have p1: "connectionPromise ?s = Some (socketCounter s, [ThenCaller (nextCall s)])"
    by (simp add: s1)
  have u: "[nextCall s ..< nextCall s + Suc n] = nextCall s # [nextCall s + 1 ..< nextCall s + 1 + n]"
    by (simp add: upt_conv_Cons)
  from connects_waiting [OF p1, of n] show ?thesis
    unfolding connects.simps(2) u by (auto simp: s1)
qed



section \<open>Claim C3: requests for action types\<close>

lemma cached_objects: "objects t = objects s \<Longrightarrow> cached t controller actionName = cached s controller actionName"
  by (simp add: cached_def split: sum.splits)

lemma typesOf_objects: "typesObjects t = typesObjects s \<Longrightarrow> typesOf t v = typesOf s v"
  by (simp add: typesOf_def split: jsval.splits obj.splits)

lemma js_set_lookup:
  "js_set (JObject r) n x h = Inr h' \<Longrightarrow> lookup h r n \<noteq> Some ProtoAccessor \<Longrightarrow>
     lookup h' r n = Some (Data x True)"
  by (auto simp: js_set_def lookup_def split: option.splits property.splits if_splits)

lemma ensure_controller_objects:
  assumes "ensure_controller controller s = Inr s1" and "objects t = objects s"
  shows "ensure_controller controller t = Inr (t\<lparr>objects := objects s1\<rparr>)"
  using assms by (auto simp: ensure_controller_def split: sum.splits if_splits)

lemma ensure_controller_shape:
  "ensure_controller controller s = Inr s1 \<Longrightarrow> s1 = s\<lparr>objects := objects s1\<rparr>"
  by (auto simp: ensure_controller_def split: sum.splits if_splits)

lemma lookup_cache_created:
  "lookup (h(Created c := x)) CachedActionsTypes n = lookup h CachedActionsTypes n"
  by (simp add: lookup_def inherited_def split: option.splits)

lemma ensure_controller_truthy:
  assumes "ensure_controller controller s = Inr s1"
  shows "\<exists>w. js_get (objects s1) (JObject CachedActionsTypes) controller = Inr w \<and> js_truthy w"
proof (cases "js_get (objects s) (JObject CachedActionsTypes) controller")
  case (Inl e)
  with assms show ?thesis by (simp add: ensure_controller_def)
next
  case (Inr v)
  show ?thesis
  proof (cases "js_truthy v")
    case True
    with assms Inr show ?thesis by (auto simp: ensure_controller_def)
  next
    case False
    let ?h = "(objects s)(Created controller := Map.empty)"
    from assms Inr False
    have set: "js_set (JObject CachedActionsTypes) controller (JObject (Created controller)) ?h
                 = Inr (objects s1)"
      by (auto simp: ensure_controller_def split: sum.splits)
    have "lookup (objects s) CachedActionsTypes controller \<noteq> Some ProtoAccessor"
      using Inr False by (auto simp: js_get_def propertyValue_def js_truthy_def)
    then have "lookup ?h CachedActionsTypes controller \<noteq> Some ProtoAccessor"
      by (simp add: lookup_cache_created)
    with set have "lookup (objects s1) CachedActionsTypes controller
                     = Some (Data (JObject (Created controller)) True)"
      by (rule js_set_lookup)
    then show ?thesis
      by (simp add: js_get_def propertyValue_def js_truthy_def)
  qed
qed

lemma ensure_controller_again:
  assumes "ensure_controller controller s = Inr s1" and "objects t = objects s1"
  shows "ensure_controller controller t = Inr t"
  using ensure_controller_truthy [OF assms(1)] assms(2)
  by (auto simp: ensure_controller_def)

text \<open>One call that finds a falsy value under its key, on a connected client.\<close>

lemma request_sent:
  assumes "connected s" and "connectionPromise s = None" and "socket s = Some k"
    and "jobs s = []"
    and "ensure_controller controller s = Inr s1"
    and "cached s1 controller actionName = Inr v" and "\<not> js_truthy v"
  shows "sent (step (GetActionTypes controller actionName) s)
           = sent s @ [(k, (messageId s + 1, ActionTypes controller actionName))]"
    and "messageId (step (GetActionTypes controller actionName) s) = messageId s + 1"
    and "connected (step (GetActionTypes controller actionName) s)"
    and "connectionPromise (step (GetActionTypes controller actionName) s) = None"
    and "socket (step (GetActionTypes controller actionName) s) = Some k"
    and "jobs (step (GetActionTypes controller actionName) s) = []"
    and "objects (step (GetActionTypes controller actionName) s) = objects s1"
proof -
  let ?t = "(snd (new_call s))\<lparr>streams := (streams (snd (new_call s)))(nextCall s := None)\<rparr>"
  have o: "objects ?t = objects s"
    by (simp add: new_call_def)
  have e: "ensure_controller controller ?t = Inr (?t\<lparr>objects := objects s1\<rparr>)"
    using assms(5) o by (rule ensure_controller_objects)
  have c: "cached (?t\<lparr>objects := objects s1\<rparr>) controller actionName = Inr v"
    using assms(6) cached_objects [of "?t\<lparr>objects := objects s1\<rparr>" s1] by simp
  have g: "getActionTypes controller actionName (nextCall s) ?t =
             (let (sid, s2) = sendMessage (ActionTypes controller actionName) (?t\<lparr>objects := objects s1\<rparr>)
              in firstAndClose sid (KActionTypes controller actionName (nextCall s)) s2)"
    using e c assms(7) by (simp add: getActionTypes_def)
  have h: "handle (GetActionTypes controller actionName) s
             = getActionTypes controller actionName (nextCall s) ?t"
    by (simp add: call_getActionTypes_def new_call_def)
  show "sent (step (GetActionTypes controller actionName) s)
           = sent s @ [(k, (messageId s + 1, ActionTypes controller actionName))]"
    and "messageId (step (GetActionTypes controller actionName) s) = messageId s + 1"
    and "connected (step (GetActionTypes controller actionName) s)"
    and "connectionPromise (step (GetActionTypes controller actionName) s) = None"
    and "socket (step (GetActionTypes controller actionName) s) = Some k"
    and "jobs (step (GetActionTypes controller actionName) s) = []"
    and "objects (step (GetActionTypes controller actionName) s) = objects s1"
    unfolding step_def h g using assms(1-4)
    by (simp_all add: new_call_def sendMessage_def connect_def firstAndClose_def
        upd_subject_def run_jobs_def send_def Let_def)
qed

text \<open>
  C3, as amended. In-flight fetches are not de-duplicated. \<open>getActionTypes\<close> supplies an
  empty object for a controller under which the cache has nothing (lines 375 to 377) and
  then reads \<open>this.cachedActionsTypes[controller][actionName]\<close>. When this read gives a
  falsy value, the call sends its own \<open>actionTypes\<close> request: on a connected client two
  calls for the same key made before the first reply send two requests, with consecutive
  identifiers. When the read gives a truthy value, the call sends nothing and resolves
  with that value: with the types that an earlier reply has stored under the key or,
  since the read follows the prototype chain, with a property that the object inherits
  under the name of the action, such as \<open>toString\<close> or \<open>constructor\<close>.
\<close>

theorem C3_one_request_per_uncached_call:
  assumes "connected s" and "connectionPromise s = None" and "socket s = Some k"
    and "jobs s = []"
    and "ensure_controller controller s = Inr s1"
    and "cached s1 controller actionName = Inr v"
  shows "(\<not> js_truthy v \<longrightarrow>
            sent (run [GetActionTypes controller actionName, GetActionTypes controller actionName] s)
              = sent s @ [(k, (messageId s + 1, ActionTypes controller actionName)),
                          (k, (messageId s + 2, ActionTypes controller actionName))])
       \<and> (js_truthy v \<longrightarrow>
            sent (step (GetActionTypes controller actionName) s) = sent s
            \<and> messageId (step (GetActionTypes controller actionName) s) = messageId s
            \<and> outcomes (step (GetActionTypes controller actionName) s) (nextCall s)
                = Some (Resolved (case typesOf s v of
                                    Some types \<Rightarrow> RTypes types
                                  | None \<Rightarrow> RCached v)))"
proof (intro conjI impI)
  assume falsy: "\<not> js_truthy v"
  let ?u = "step (GetActionTypes controller actionName) s"
  note first = request_sent [OF assms falsy]
  have e: "ensure_controller controller ?u = Inr ?u"
    using assms(5) first(7) by (rule ensure_controller_again)
  have c: "cached ?u controller actionName = Inr v"
    using assms(6) cached_objects [OF first(7)] by simp
  have "sent (step (GetActionTypes controller actionName) ?u)
          = sent ?u @ [(k, (messageId ?u + 1, ActionTypes controller actionName))]"
    using first(3,4,5,6) e c falsy by (rule request_sent(1))
  then show "sent (run [GetActionTypes controller actionName, GetActionTypes controller actionName] s)
              = sent s @ [(k, (messageId s + 1, ActionTypes controller actionName)),
                          (k, (messageId s + 2, ActionTypes controller actionName))]"
    using first(1,2) by (simp add: run_def)
next
  assume truthy: "js_truthy v"
  let ?t = "(snd (new_call s))\<lparr>streams := (streams (snd (new_call s)))(nextCall s := None)\<rparr>"
  have o: "objects ?t = objects s"
    by (simp add: new_call_def)
  have e: "ensure_controller controller ?t = Inr (?t\<lparr>objects := objects s1\<rparr>)"
    using assms(5) o by (rule ensure_controller_objects)
  have c: "cached (?t\<lparr>objects := objects s1\<rparr>) controller actionName = Inr v"
    using assms(6) cached_objects [of "?t\<lparr>objects := objects s1\<rparr>" s1] by simp
  have ty: "typesOf (?t\<lparr>objects := objects s1\<rparr>) v = typesOf s v"
    by (rule typesOf_objects) (simp add: new_call_def)
  have g: "getActionTypes controller actionName (nextCall s) ?t =
             return_cached (nextCall s) v (?t\<lparr>objects := objects s1\<rparr>)"
    using e c truthy by (simp add: getActionTypes_def)
  have h: "handle (GetActionTypes controller actionName) s
             = getActionTypes controller actionName (nextCall s) ?t"
    by (simp add: call_getActionTypes_def new_call_def)
  have r: "return_cached (nextCall s) v (?t\<lparr>objects := objects s1\<rparr>) =
             settle (nextCall s)
               (Resolved (case typesOf s v of Some types \<Rightarrow> RTypes types | None \<Rightarrow> RCached v))
               (?t\<lparr>objects := objects s1\<rparr>)"
    unfolding return_cached_def ty
    by (simp add: continue_call_def continue_inherited_def new_call_def split: option.splits)
  show "sent (step (GetActionTypes controller actionName) s) = sent s"
    unfolding step_def h g r using assms(4)
    by (simp add: new_call_def settle_def run_jobs_def)
  show "messageId (step (GetActionTypes controller actionName) s) = messageId s"
    unfolding step_def h g r by (simp add: new_call_def)
  show "outcomes (step (GetActionTypes controller actionName) s) (nextCall s)
                = Some (Resolved (case typesOf s v of
                                    Some types \<Rightarrow> RTypes types
                                  | None \<Rightarrow> RCached v))"
    unfolding step_def h g r using assms(4)
    by (simp add: new_call_def settle_def run_jobs_def)
qed

text \<open>C3 as stated fails. A connected client, two calls for the same key before any
  reply: two requests.\<close>

theorem C3_counterexample:
  "map snd (sent (run [Connect, SocketOpen 0, GetActionTypes ''c'' ''a'', GetActionTypes ''c'' ''a'']
                    (init None [])))
     = [(1, ActionTypes ''c'' ''a''), (2, ActionTypes ''c'' ''a'')]"
  by code_simp

text \<open>On a connected client without any cached types: two calls for the action \<open>a\<close>
  send two requests, and a call for the action \<open>toString\<close> sends none and resolves with
  the function that every object inherits under this name.\<close>

theorem C3_witness:
  "sent (run [GetActionTypes ''c'' ''a'', GetActionTypes ''c'' ''a'']
           (run [Connect, SocketOpen 0] (init None [])))
     = [(0, (1, ActionTypes ''c'' ''a'')), (0, (2, ActionTypes ''c'' ''a''))]
   \<and> sent (run [Connect, SocketOpen 0] (init None [])) = []
   \<and> sent (step (GetActionTypes ''c'' ''toString'') (run [Connect, SocketOpen 0] (init None []))) = []
   \<and> outcomes (step (GetActionTypes ''c'' ''toString'') (run [Connect, SocketOpen 0] (init None []))) 1
       = Some (Resolved (RCached (JObject (Builtin ''Object.prototype.toString''))))"
proof -
  let ?s = "run [Connect, SocketOpen 0] (init None [])"
  have a: "connected ?s" and b: "connectionPromise ?s = None" and c: "socket ?s = Some 0"
    and d: "jobs ?s = []" and f: "sent ?s = []" and g: "messageId ?s = 0"
    and n: "nextCall ?s = 1"
    by code_simp+
  have "case ensure_controller ''c'' ?s of
          Inl e \<Rightarrow> False
        | Inr s1 \<Rightarrow> cached s1 ''c'' ''a'' = Inr JUndefined
            \<and> cached s1 ''c'' ''toString'' = Inr (JObject (Builtin ''Object.prototype.toString''))
            \<and> typesOf ?s (JObject (Builtin ''Object.prototype.toString'')) = None"
    by code_simp
  then obtain s1 where e: "ensure_controller ''c'' ?s = Inr s1"
    and plain: "cached s1 ''c'' ''a'' = Inr JUndefined"
    and inh: "cached s1 ''c'' ''toString'' = Inr (JObject (Builtin ''Object.prototype.toString''))"
    and ty: "typesOf ?s (JObject (Builtin ''Object.prototype.toString'')) = None"
    by (cases "ensure_controller ''c'' ?s") simp_all
  have two: "sent (run [GetActionTypes ''c'' ''a'', GetActionTypes ''c'' ''a''] ?s)
     = [(0, (1, ActionTypes ''c'' ''a'')), (0, (2, ActionTypes ''c'' ''a''))]"
    using C3_one_request_per_uncached_call [OF a b c d e plain] f g
    by (simp add: js_truthy_def)
  have none: "sent (step (GetActionTypes ''c'' ''toString'') ?s) = []
    \<and> outcomes (step (GetActionTypes ''c'' ''toString'') ?s) 1
       = Some (Resolved (RCached (JObject (Builtin ''Object.prototype.toString''))))"
    using C3_one_request_per_uncached_call [OF a b c d e inh] f n ty
    by (simp add: js_truthy_def)
  from two f none show ?thesis
    by (intro conjI) simp_all
qed

section \<open>Claim C2: connecting with a token\<close>

text \<open>
  C2 fails on the code. With a token \<open>onopen\<close> calls \<open>authenticate\<close>, which sends its
  request through \<open>sendMessage\<close>, and \<open>sendMessage\<close> first awaits \<open>connect()\<close>: that call
  finds the promise of the very attempt whose \<open>onopen\<close> handler is waiting for the reply,
  and joins its waiters. After the socket has opened, no frame has been sent, the
  \<open>authenticate\<close> request waits for the attempt, the attempt waits for the reply, and the
  caller of \<open>connect()\<close> is still pending; further calls only queue up behind.
\<close>

theorem C2_authenticate_waits_for_its_own_connection:
  "sent token_client = []
   \<and> connectionPromise token_client
        = Some (0, [ThenCaller 0, ThenSend (1, Authenticate (Some ''secret'')) 1])
   \<and> map_option observer (subjects token_client 1) = Some (FirstAndClose (KAuthenticate 0))
   \<and> outcomes token_client 0 = None
   \<and> \<not> connected token_client
   \<and> sent (run [GetActionTypes ''c'' ''a'', Connect] token_client) = []
   \<and> outcomes (run [GetActionTypes ''c'' ''a'', Connect] token_client) 0 = None"
  unfolding token_client_def by code_simp

section \<open>Claim C5: the teardown of an entity mirror\<close>

text \<open>
  C5. Let the exchange \<open>sid\<close> of a call of \<open>stream\<close> be live, and let its \<open>type\<close> frame
  declare the return type \<open>entity\<close> with an item of a registered entity. If no mirror for
  (entity, primary key) is tracked, a new mirror is created with exactly one teardown,
  the call resolves with it and nothing is sent yet; releasing the mirror calls \<open>send\<close>
  once, with \<open>entity/unsubscribe\<close> and the identifier of the exchange, which on an
  existing socket puts exactly that one frame on the wire. If a mirror for the key is
  tracked, the call resolves with that mirror, which only counts one more holder: no
  teardown is added and nothing is sent.
\<close>

theorem C5_unsubscribe_only_for_a_new_mirror:
  assumes "replies s sid = Some sid"
    and "subjects s sid = Some sub" and "\<not> isStopped sub" and "observer sub = StreamSub c"
    and "streams s c = Some st" and "s_subject st = Some sid" and "s_types st = Some types"
    and "name \<in> set (RegisteredEntities s)"
  shows "(\<not> hasEntitySubject name i s \<longrightarrow>
           (\<exists>t. onMessage (Some (sid, TypeFrame REntity data (Some name) (Some (i, v)))) s = Inr t
              \<and> entityState t (name, i) =
                  Some \<lparr>m_item = PlainToClass name v, m_removed = False, m_holders = 1,
                        m_tearDowns = [(sid, EntityUnsubscribe)]\<rparr>
              \<and> (outcomes s c = None \<longrightarrow>
                    outcomes t c = Some (Resolved (REntitySubject (Some (name, i)))))
              \<and> sent t = sent s
              \<and> release (name, i) t =
                  send (sid, EntityUnsubscribe) (t\<lparr>entityState := (entityState t)((name, i) := None)\<rparr>)
              \<and> (\<forall>k. socket s = Some k \<longrightarrow>
                    (\<exists>u. release (name, i) t = Inr u
                       \<and> sent u = sent s @ [(k, (sid, EntityUnsubscribe))]
                       \<and> entityState u (name, i) = None))))
       \<and> (\<forall>m. entityState s (name, i) = Some m \<and> \<not> m_removed m \<longrightarrow>
           (\<exists>t. onMessage (Some (sid, TypeFrame REntity data (Some name) (Some (i, v)))) s = Inr t
              \<and> entityState t (name, i) = Some (m\<lparr>m_holders := m_holders m + 1\<rparr>)
              \<and> (outcomes s c = None \<longrightarrow>
                    outcomes t c = Some (Resolved (REntitySubject (Some (name, i)))))
              \<and> sent t = sent s))"
proof (intro conjI impI allI)
  assume new: "\<not> hasEntitySubject name i s"
  let ?s1 = "upd_subject sid (\<lambda>x. x\<lparr>emitted := emitted x @ [(sid, TypeFrame REntity data (Some name) (Some (i, v)))]\<rparr>) s"
  let ?m = "\<lparr>m_item = PlainToClass name v, m_removed = False, m_holders = 1,
             m_tearDowns = [(sid, EntityUnsubscribe)]\<rparr>"
  define t where "t = settle c (Resolved (REntitySubject (Some (name, i))))
              (?s1\<lparr>entityState := (entityState ?s1)((name, i) \<mapsto> ?m)\<rparr>)"
  have er: "entity_reply c sid (Some name) (Some (i, v)) ?s1 = Inr t"
    using new assms(2,8)
    by (simp add: t_def entity_reply_def lookupEntity_def hasEntitySubject_def handleEntity_def
        addTearDown_def upd_subject_def Let_def)
  have om: "onMessage (Some (sid, TypeFrame REntity data (Some name) (Some (i, v)))) s = Inr t"
    using assms er
    by (simp add: onMessage_def subject_next_def Let_def stream_reply_def type_reply_def
        upd_subject_def)
  have es: "entityState t (name, i) = Some ?m"
    by (simp add: t_def settle_def upd_subject_def assms(2) split: option.splits)
  have oc: "outcomes t c = Some (Resolved (REntitySubject (Some (name, i))))"
    if "outcomes s c = None"
    using that by (simp add: t_def settle_def upd_subject_def assms(2))
  have se: "sent t = sent s"
    by (simp add: t_def settle_def upd_subject_def assms(2) split: option.splits)
  have so: "socket t = socket s"
    by (simp add: t_def settle_def upd_subject_def assms(2) split: option.splits)
  have re: "release (name, i) t =
      send (sid, EntityUnsubscribe) (t\<lparr>entityState := (entityState t)((name, i) := None)\<rparr>)"
    using es by (simp add: release_def split: sum.splits)
  have wire: "\<exists>u. release (name, i) t = Inr u
                \<and> sent u = sent s @ [(k, (sid, EntityUnsubscribe))]
                \<and> entityState u (name, i) = None"
    if "socket s = Some k" for k
    using that so se unfolding re by (simp add: send_def)
  show "\<exists>t. onMessage (Some (sid, TypeFrame REntity data (Some name) (Some (i, v)))) s = Inr t
              \<and> entityState t (name, i) =
                  Some \<lparr>m_item = PlainToClass name v, m_removed = False, m_holders = 1,
                        m_tearDowns = [(sid, EntityUnsubscribe)]\<rparr>
              \<and> (outcomes s c = None \<longrightarrow>
                    outcomes t c = Some (Resolved (REntitySubject (Some (name, i)))))
              \<and> sent t = sent s
              \<and> release (name, i) t =
                  send (sid, EntityUnsubscribe) (t\<lparr>entityState := (entityState t)((name, i) := None)\<rparr>)
              \<and> (\<forall>k. socket s = Some k \<longrightarrow>
                    (\<exists>u. release (name, i) t = Inr u
                       \<and> sent u = sent s @ [(k, (sid, EntityUnsubscribe))]
                       \<and> entityState u (name, i) = None))"
  proof (rule exI [of _ t], intro conjI impI allI)
    fix k assume "socket s = Some k"
    then show "\<exists>u. release (name, i) t = Inr u
                       \<and> sent u = sent s @ [(k, (sid, EntityUnsubscribe))]
                       \<and> entityState u (name, i) = None"
      by (rule wire)
  qed (use om es oc se re in simp_all)
next
  fix m
  assume old: "entityState s (name, i) = Some m \<and> \<not> m_removed m"
  let ?s1 = "upd_subject sid (\<lambda>x. x\<lparr>emitted := emitted x @ [(sid, TypeFrame REntity data (Some name) (Some (i, v)))]\<rparr>) s"
  define t where "t = settle c (Resolved (REntitySubject (Some (name, i))))
              (?s1\<lparr>entityState := (entityState ?s1)((name, i) \<mapsto> m\<lparr>m_holders := m_holders m + 1\<rparr>)\<rparr>)"
  have er: "entity_reply c sid (Some name) (Some (i, v)) ?s1 = Inr t"
    using old assms(2,8)
    by (simp add: t_def entity_reply_def lookupEntity_def hasEntitySubject_def handleEntity_def
        upd_subject_def Let_def)
  have om: "onMessage (Some (sid, TypeFrame REntity data (Some name) (Some (i, v)))) s = Inr t"
    using assms er
    by (simp add: onMessage_def subject_next_def Let_def stream_reply_def type_reply_def
        upd_subject_def)
  have es: "entityState t (name, i) = Some (m\<lparr>m_holders := m_holders m + 1\<rparr>)"
    by (simp add: t_def settle_def upd_subject_def assms(2) split: option.splits)
  have oc: "outcomes t c = Some (Resolved (REntitySubject (Some (name, i))))"
    if "outcomes s c = None"
    using that by (simp add: t_def settle_def upd_subject_def assms(2))
  have se: "sent t = sent s"
    by (simp add: t_def settle_def upd_subject_def assms(2) split: option.splits)
  show "\<exists>t. onMessage (Some (sid, TypeFrame REntity data (Some name) (Some (i, v)))) s = Inr t
              \<and> entityState t (name, i) = Some (m\<lparr>m_holders := m_holders m + 1\<rparr>)
              \<and> (outcomes s c = None \<longrightarrow>
                    outcomes t c = Some (Resolved (REntitySubject (Some (name, i)))))
              \<and> sent t = sent s"
    by (rule exI [of _ t], intro conjI impI) (use om es oc se in simp_all)
qed

text \<open>The first call creates the mirror of user 7, and its release sends the one
  \<open>entity/unsubscribe\<close> of exchange 2; the second call, exchange 3, gets the tracked
  mirror with the teardown of exchange 2 and none of its own.\<close>

theorem C5_witness:
  "(\<exists>t. onMessage (Some (2, TypeFrame REntity Undefined (Some ''User'') (Some (7, Plain ''peter''))))
          entity_call = Inr t
      \<and> map_option m_tearDowns (entityState t (''User'', 7)) = Some [(2, EntityUnsubscribe)]
      \<and> outcomes t 1 = Some (Resolved (REntitySubject (Some (''User'', 7))))
      \<and> (\<exists>u. release (''User'', 7) t = Inr u
            \<and> sent u = sent entity_call @ [(0, (2, EntityUnsubscribe))]))
   \<and> (\<exists>t. onMessage (Some (3, TypeFrame REntity Undefined (Some ''User'') (Some (7, Plain ''peter''))))
          entity_call_again = Inr t
      \<and> map_option m_tearDowns (entityState t (''User'', 7)) = Some [(2, EntityUnsubscribe)]
      \<and> map_option m_holders (entityState t (''User'', 7)) = Some 2
      \<and> outcomes t 2 = Some (Resolved (REntitySubject (Some (''User'', 7))))
      \<and> sent t = sent entity_call_again)"
proof (rule conjI)
  let ?s = "entity_call"
  have a: "replies ?s 2 = Some 2"
    and b: "map_option (\<lambda>x. (isStopped x, observer x)) (subjects ?s 2) = Some (False, StreamSub 1)"
    and c: "map_option (\<lambda>x. (s_subject x, s_types x)) (streams ?s 1)
              = Some (Some 2, Some \<lparr>parameters = [], returnType =
                  \<lparr>type_name = ''Entity'', entityName = Some ''User'', partial = False\<rparr>\<rparr>)"
    and d: "''User'' \<in> set (RegisteredEntities ?s)"
    and e: "\<not> hasEntitySubject ''User'' 7 ?s"
    and f: "outcomes ?s 1 = None" "socket ?s = Some 0"
    unfolding entity_call_def by code_simp+
  from b obtain sub where sub: "subjects ?s 2 = Some sub" "\<not> isStopped sub" "observer sub = StreamSub 1"
    by auto
  from c obtain st where st: "streams ?s 1 = Some st" "s_subject st = Some 2"
    "s_types st = Some \<lparr>parameters = [], returnType =
                  \<lparr>type_name = ''Entity'', entityName = Some ''User'', partial = False\<rparr>\<rparr>"
    by auto
  show "\<exists>t. onMessage (Some (2, TypeFrame REntity Undefined (Some ''User'') (Some (7, Plain ''peter''))))
          entity_call = Inr t
      \<and> map_option m_tearDowns (entityState t (''User'', 7)) = Some [(2, EntityUnsubscribe)]
      \<and> outcomes t 1 = Some (Resolved (REntitySubject (Some (''User'', 7))))
      \<and> (\<exists>u. release (''User'', 7) t = Inr u
            \<and> sent u = sent entity_call @ [(0, (2, EntityUnsubscribe))])"
    using C5_unsubscribe_only_for_a_new_mirror [OF a sub st d, of 7 Undefined "Plain ''peter''"] e f
    by fastforce
next
  let ?s = "entity_call_again"
  have a: "replies ?s 3 = Some 3"
    and b: "map_option (\<lambda>x. (isStopped x, observer x)) (subjects ?s 3) = Some (False, StreamSub 2)"
    and c: "map_option (\<lambda>x. (s_subject x, s_types x)) (streams ?s 2)
              = Some (Some 3, Some \<lparr>parameters = [], returnType =
                  \<lparr>type_name = ''Entity'', entityName = Some ''User'', partial = False\<rparr>\<rparr>)"
    and d: "''User'' \<in> set (RegisteredEntities ?s)"
    and e: "entityState ?s (''User'', 7) =
              Some \<lparr>m_item = PlainToClass ''User'' (Plain ''peter''), m_removed = False,
                    m_holders = 1, m_tearDowns = [(2, EntityUnsubscribe)]\<rparr>"
    and f: "outcomes ?s 2 = None"
    unfolding entity_call_again_def entity_call_def by code_simp+
  from b obtain sub where sub: "subjects ?s 3 = Some sub" "\<not> isStopped sub" "observer sub = StreamSub 2"
    by auto
  from c obtain st where st: "streams ?s 2 = Some st" "s_subject st = Some 3"
    "s_types st = Some \<lparr>parameters = [], returnType =
                  \<lparr>type_name = ''Entity'', entityName = Some ''User'', partial = False\<rparr>\<rparr>"
    by auto
  show "\<exists>t. onMessage (Some (3, TypeFrame REntity Undefined (Some ''User'') (Some (7, Plain ''peter''))))
          entity_call_again = Inr t
      \<and> map_option m_tearDowns (entityState t (''User'', 7)) = Some [(2, EntityUnsubscribe)]
      \<and> map_option m_holders (entityState t (''User'', 7)) = Some 2
      \<and> outcomes t 2 = Some (Resolved (REntitySubject (Some (''User'', 7))))
      \<and> sent t = sent entity_call_again"
    using C5_unsubscribe_only_for_a_new_mirror [OF a sub st d, of 7 Undefined "Plain ''peter''"] e f
    by fastforce
qed

section \<open>Claim C9: the progress of a chunked download\<close>

lemma split_long:
  "0 < n \<Longrightarrow> n < length xs \<Longrightarrow>
     split_chunks n xs = take n xs # split_chunks n (drop n xs)"
  by (subst split_chunks.simps) simp

lemma split_short: "length xs \<le> n \<Longrightarrow> split_chunks n xs = [xs]"
  by (subst split_chunks.simps) simp

lemma progress_le_1: "progress t \<le> 1"
  by (simp add: progress_def)

text \<open>Chunks that arrive in order are all accepted; every update has the announced
  total, and the current values are the running sums of the chunk lengths.\<close>

lemma receive_all_in_order:
  "received t = k \<Longrightarrow>
     \<exists>ts. receive_all (enumerate k chunks) t = Inr ts
        \<and> map current ts = running (current t) (map length chunks)
        \<and> (\<forall>x \<in> set ts. total x = total t)"
proof (induction chunks arbitrary: t k)
  case Nil
  then show ?case by simp
next
  case (Cons c chunks)
  let ?t = "t\<lparr>buffer := buffer t @ c, received := received t + 1\<rparr>"
  have r: "receive (k, c) t = Inr ?t"
    using Cons.prems by (simp add: receive_def)
  have "received ?t = Suc k"
    using Cons.prems by simp
  from Cons.IH [OF this] obtain ts where
    ts: "receive_all (enumerate (Suc k) chunks) ?t = Inr ts"
    "map current ts = running (current ?t) (map length chunks)"
    "\<forall>x \<in> set ts. total x = total ?t"
    by blast
  have "receive_all (enumerate k (c # chunks)) t = Inr (?t # ts)"
    using ts(1) by (simp add: r)
  moreover have "map current (?t # ts) = running (current t) (map length (c # chunks))"
    using ts(2) by (simp add: current_def)
  moreover have "\<forall>x \<in> set (?t # ts). total x = total t"
    using ts(3) by simp
  ultimately show ?case by blast
qed

text \<open>
  C9. A message of 650000 bytes of payload and an overhead of at most 50000 bytes is
  downloaded in chunks of 100000 bytes. The transfer reports seven updates, whose
  \<open>current\<close> values are 100000, 200000, 300000, 400000, 500000, 600000 and
  650000 + overhead; they never decrease, the progress is at most 1 at every update,
  \<open>done\<close> holds at the last update only, and the progress is 1 there.
\<close>

theorem C9_download_progress:
  fixes message :: "'a list"
  assumes "length message = 650000 + overhead" and "overhead \<le> 50000"
  shows "\<exists>ts. download 100000 message = Inr ts
     \<and> map current ts = [100000, 200000, 300000, 400000, 500000, 600000, 650000 + overhead]
     \<and> sorted (map current ts)
     \<and> (\<forall>t \<in> set ts. progress t \<le> 1)
     \<and> map is_done ts = [False, False, False, False, False, False, True]
     \<and> progress (last ts) = 1"
proof -
  have l: "length (drop n message) = 650000 + overhead - n" for n
    using assms(1) by simp
  have c: "split_chunks 100000 message =
      [take 100000 message, take 100000 (drop 100000 message),
       take 100000 (drop 200000 message), take 100000 (drop 300000 message),
       take 100000 (drop 400000 message), take 100000 (drop 500000 message),
       drop 600000 message]"
    using assms by (simp add: split_long split_short l)
  have len: "map length (split_chunks 100000 message) =
      [100000, 100000, 100000, 100000, 100000, 100000, 50000 + overhead]"
    unfolding c using assms by (simp add: l)
  let ?t0 = "\<lparr>buffer = [] :: 'a list, received = 0, total = length message\<rparr>"
  have "\<exists>ts. receive_all (enumerate 0 (split_chunks 100000 message)) ?t0 = Inr ts
          \<and> map current ts = running (current ?t0) (map length (split_chunks 100000 message))
          \<and> (\<forall>x \<in> set ts. total x = total ?t0)"
    using receive_all_in_order [of ?t0 0 "split_chunks 100000 message"] by simp
  then obtain ts where
    ra: "receive_all (enumerate 0 (split_chunks 100000 message)) ?t0 = Inr ts"
    and cur0: "map current ts = running (current ?t0) (map length (split_chunks 100000 message))"
    and tot0: "\<forall>x \<in> set ts. total x = total ?t0"
    by blast
  have d: "download 100000 message = Inr ts"
    unfolding download_def by (rule ra)
  have tot: "total x = 650000 + overhead" if "x \<in> set ts" for x
    using tot0 that assms(1) by simp
  have cur: "map current ts =
      [100000, 200000, 300000, 400000, 500000, 600000, 650000 + overhead]"
    unfolding cur0 len by (simp add: current_def)
  have so: "sorted (map current ts)"
    unfolding cur by simp
  have "map is_done ts = map (\<lambda>c. 650000 + overhead \<le> c) (map current ts)"
    by (simp add: is_done_def tot)
  then have dn: "map is_done ts = [False, False, False, False, False, False, True]"
    unfolding cur by simp
  have ne: "ts \<noteq> []"
    using cur by auto
  have "current (last ts) = last (map current ts)"
    using ne by (simp add: last_map)
  then have lc: "current (last ts) = 650000 + overhead"
    unfolding cur by simp
  have lt: "total (last ts) = 650000 + overhead"
    using ne by (intro tot) simp
  have la: "progress (last ts) = 1"
    by (simp add: progress_def lc lt)
  show ?thesis
    by (intro exI [of _ ts] conjI ballI) (rule d cur so dn la progress_le_1)+
qed

text \<open>The download of the test: 650000 bytes and an overhead of 25 bytes.\<close>

theorem C9_witness:
  "\<exists>ts. download 100000 (replicate 650025 (0::nat)) = Inr ts
     \<and> map current ts = [100000, 200000, 300000, 400000, 500000, 600000, 650025]
     \<and> map is_done ts = [False, False, False, False, False, False, True]
     \<and> progress (last ts) = 1"
proof -
  have a: "length (replicate 650025 (0::nat)) = 650000 + 25"
    by (simp only: length_replicate)
  have b: "(25::nat) \<le> 50000"
    by simp
  have e: "(650000::nat) + 25 = 650025"
    by simp
  from C9_download_progress [OF a b, unfolded e] obtain ts where
    t: "download 100000 (replicate 650025 (0::nat)) = Inr ts"
    "map current ts = [100000, 200000, 300000, 400000, 500000, 600000, 650025]"
    "map is_done ts = [False, False, False, False, False, False, True]"
    "progress (last ts) = 1"
    by (elim exE conjE)
  show ?thesis
    by (rule exI [of _ ts]) (intro conjI t)
qed

section \<open>The routing stays sound in every run\<close>

lemma routes_fields: "replies t = replies s \<Longrightarrow> subjects t = subjects s \<Longrightarrow> routes t = routes s"
  by (simp add: routes_def)

lemma routes_init: "routes (init tok regs)"
  by (simp add: routes_def init_def)

lemma routes_settle [simp]: "routes (settle c out s) = routes s"
  by (rule routes_fields) (simp_all add: settle_def split: option.splits)

lemma routes_new_call [simp]: "routes (snd (new_call s)) = routes s"
  by (rule routes_fields) (simp_all add: new_call_def)

lemma routes_upd_subject:
  assumes "routes s" and "\<And>x. set (emitted (f x)) \<subseteq> set (emitted x)"
  shows "routes (upd_subject sid f s)"
proof -
  have "y \<in> set (emitted x)" if "y \<in> set (emitted (f x))" for x y
    using assms(2) that by blast
  with assms(1) show ?thesis
    by (fastforce simp: routes_def upd_subject_def split: option.splits if_splits)
qed

lemma routes_emit:
  "routes s \<Longrightarrow> fst v = sid \<Longrightarrow>
     routes (upd_subject sid (\<lambda>x. x\<lparr>emitted := emitted x @ [v]\<rparr>) s)"
  by (auto simp: routes_def upd_subject_def split: option.splits if_splits)

lemma routes_noteTearDown: "routes s \<Longrightarrow> routes (noteTearDown sid s)"
  unfolding noteTearDown_def by (rule routes_upd_subject) simp_all

lemma routes_drop_reply: "routes s \<Longrightarrow> routes (s\<lparr>replies := (replies s)(i := None)\<rparr>)"
  by (simp add: routes_def)

lemma routes_tearDown: "routes s \<Longrightarrow> routes (tearDown sid s)"
  by (simp add: tearDown_def routes_noteTearDown routes_drop_reply split: option.splits)

lemma routes_fail_k [simp]: "routes (fail_k k e s) = routes s"
  by (rule routes_fields) simp_all

lemma routes_complete: "routes s \<Longrightarrow> routes (complete sid s)"
  by (simp add: complete_def routes_tearDown routes_upd_subject
      split: option.splits subscriber.splits)

lemma routes_close: "routes s \<Longrightarrow> routes (close sid s)"
  by (simp add: close_def routes_complete routes_tearDown)

lemma routes_log [simp]: "routes (s\<lparr>logged := x\<rparr>) = routes s"
  by (simp add: routes_def)

lemma routes_subject_error: "routes s \<Longrightarrow> routes (subject_error sid e s)"
  by (simp add: subject_error_def routes_tearDown routes_upd_subject
      split: option.splits subscriber.splits)

lemma routes_connect [simp]: "routes (connect k s) = routes s"
  by (rule routes_fields) simp_all

lemma routes_sendMessage: "routes s \<Longrightarrow> routes (snd (sendMessage m s))"
  by (auto simp: sendMessage_def Let_def routes_def)

lemma routes_firstAndClose: "routes s \<Longrightarrow> routes (firstAndClose sid k s)"
  by (simp add: firstAndClose_def Let_def routes_tearDown routes_upd_subject
      split: option.splits)

lemma routes_run_cont_ok [simp]: "routes (run_cont None k s) = routes s"
  by (rule routes_fields) simp_all

lemma routes_run_cont: "routes s \<Longrightarrow> routes (run_cont r k s)"
proof (cases r)
  case None
  then show "routes s \<Longrightarrow> ?thesis" by simp
next
  case (Some e)
  then show "routes s \<Longrightarrow> ?thesis"
    by (cases k) (simp_all add: routes_subject_error)
qed

lemma routes_resume_waiter: "routes s \<Longrightarrow> routes (resume_waiter r k s)"
  by (cases r) (simp_all add: routes_run_cont)

lemma routes_waiters: "routes s \<Longrightarrow> routes (foldl (\<lambda>t w. resume_waiter r w t) s ws)"
  by (induction ws arbitrary: s) (simp_all add: routes_resume_waiter)

lemma routes_promise [simp]: "routes (s\<lparr>connectionPromise := x\<rparr>) = routes s"
  by (simp add: routes_def)

lemma routes_settle_connection: "routes s \<Longrightarrow> routes (settle_connection p r s)"
  by (simp add: settle_connection_def routes_waiters routes_run_cont
      split: option.splits list.splits)

lemma routes_run_jobs [simp]: "routes (run_jobs s) = routes s"
  by (rule routes_fields) simp_all

lemma routes_open_done: "routes s \<Longrightarrow> routes (open_done p s)"
proof -
  assume "routes s"
  then have "routes (s\<lparr>connected := True, connectionTries := 0\<rparr>)"
    by (simp add: routes_def)
  then show ?thesis
    unfolding open_done_def by (rule routes_settle_connection)
qed

lemma routes_one_shot: "routes s \<Longrightarrow> sendMessage m s = (sid, s') \<Longrightarrow> routes (firstAndClose sid k s')"
  using routes_sendMessage [of s m] by (auto intro: routes_firstAndClose)

lemma routes_authenticate: "routes s \<Longrightarrow> routes (authenticate p s)"
  by (auto simp: authenticate_def split: prod.splits intro: routes_one_shot)

lemma routes_onopen: "routes s \<Longrightarrow> routes (onopen p s)"
  by (simp add: onopen_def routes_authenticate routes_open_done)

lemma routes_onerror: "routes s \<Longrightarrow> routes (onerror p s)"
proof -
  assume "routes s"
  then have "routes (s\<lparr>connected := False\<rparr>)"
    by (simp add: routes_def)
  then show ?thesis
    by (simp add: onerror_def Let_def routes_settle_connection)
qed

lemma routes_disconnect [simp]: "routes (disconnect s) = routes s"
  by (simp add: routes_def disconnect_def)

lemma routes_entityState [simp]: "routes (s\<lparr>entityState := x\<rparr>) = routes s"
  by (simp add: routes_def)

lemma routes_handleEntity [simp]: "routes (snd (handleEntity ct it s)) = routes s"
  by (simp add: handleEntity_def Let_def split: option.splits)

lemma routes_addTearDown [simp]: "routes (addTearDown key m s) = routes s"
  by (simp add: addTearDown_def split: option.splits)

lemma routes_send: "send m s = Inr t \<Longrightarrow> routes t = routes s"
  by (auto simp: send_def split: option.splits intro!: routes_fields)

lemma routes_sendAll: "sendAll ms s = Inr t \<Longrightarrow> routes t = routes s"
proof (induction ms arbitrary: s)
  case Nil
  then show ?case by simp
next
  case (Cons m ms)
  then show ?case
    by (auto split: sum.splits dest: routes_send)
qed

lemma routes_release: "release key s = Inr t \<Longrightarrow> routes t = routes s"
  by (auto simp: release_def dest: routes_sendAll split: option.splits if_splits)

lemma routes_applyChange [simp]: "routes (applyChange n i v s) = routes s"
  by (simp add: applyChange_def split: option.splits)

lemma routes_markRemoved [simp]: "routes (markRemoved n i s) = routes s"
  by (simp add: markRemoved_def split: option.splits)

lemma routes_markRemoved_many [simp]:
  "routes (foldl (\<lambda>t i. markRemoved n i t) s is) = routes s"
  by (induction "is" arbitrary: s) simp_all

lemma routes_handleEntityMessage [simp]: "routes (handleEntityMessage b s) = routes s"
  by (cases b) simp_all

lemma routes_upd_stream [simp]: "routes (upd_stream c f s) = routes s"
  by (rule routes_fields) (simp_all add: upd_stream_def split: option.splits)

lemma routes_deserializeResult: "routes s \<Longrightarrow> routes (snd (deserializeResult c sid rt v s))"
  by (simp add: deserializeResult_def routes_close split: option.splits val.splits)

lemma routes_entity_reply: "entity_reply c rid ename item s = Inr t \<Longrightarrow> routes t = routes s"
proof -
  have h: "handleEntity ct it s = (key, u) \<Longrightarrow> routes u = routes s" for ct it key u
    using routes_handleEntity [of ct it s] by simp
  show "entity_reply c rid ename item s = Inr t \<Longrightarrow> routes t = routes s"
    by (auto simp: entity_reply_def Let_def dest!: h split: option.splits if_splits prod.splits)
qed

lemma routes_type_reply:
  "type_reply c rid rt data ename item s = Inr t \<Longrightarrow> routes t = routes s"
  by (auto simp: type_reply_def dest: routes_entity_reply split: return_type.splits option.splits)

lemma routes_forget [simp]: "routes (forget c i ob s) = routes s"
  by (simp add: forget_def)

lemma routes_drop_subscriber:
  "drop_subscriber c i st s = Inr t \<Longrightarrow> routes t = routes s"
  by (auto simp: drop_subscriber_def Let_def dest!: routes_send
      split: option.splits if_splits sum.splits)

lemma routes_drop_subscriber_thrown:
  "drop_subscriber c i st s = Inl (e, t) \<Longrightarrow> routes t = routes s"
  by (auto simp: drop_subscriber_def Let_def split: option.splits if_splits sum.splits)

lemma routes_stream_reply:
  assumes "routes s" and "stream_reply c reply s = Inr t"
  shows "routes t"
proof -
  have d: "deserializeResult c sid rt v s = (x, u) \<Longrightarrow> routes u" for sid rt v x u
    using routes_deserializeResult [OF assms(1), of c sid rt v] by simp
  have e: "drop_subscriber c i st s = Inr u \<Longrightarrow> routes (close sid u)" for i st u sid
    using routes_drop_subscriber [of c i st s u] assms(1) by (simp add: routes_close)
  show ?thesis
    using assms
    by (auto simp: stream_reply_def Let_def routes_close
        dest: routes_type_reply d e
        split: option.splits server_body.splits prod.splits return_value.splits sum.splits)
qed

lemma routes_stream_reply_thrown:
  assumes "routes s" and "stream_reply c reply s = Inl (e, t)"
  shows "routes t"
  using assms
  by (auto simp: stream_reply_def Let_def dest: routes_drop_subscriber_thrown
      split: option.splits server_body.splits prod.splits return_value.splits sum.splits)

lemma routes_streams [simp]: "routes (s\<lparr>streams := x\<rparr>) = routes s"
  by (simp add: routes_def)

lemma routes_objects [simp]: "routes (s\<lparr>objects := x\<rparr>) = routes s"
  by (simp add: routes_def)

lemma routes_typesObjects [simp]: "routes (s\<lparr>typesObjects := x\<rparr>) = routes s"
  by (simp add: routes_def)

lemma routes_continue_call: "routes s \<Longrightarrow> routes (continue_call c types s)"
proof -
  assume r: "routes s"
  have "routes (upd_subject sid (\<lambda>x. x\<lparr>observer := StreamSub c\<rparr>) (upd_stream c f s'))"
    if "sendMessage m s = (sid, s')" for m sid s' f
  proof -
    have "routes s'" using routes_sendMessage [OF r, of m] that by simp
    then have "routes (upd_stream c f s')" by simp
    then show ?thesis by (rule routes_upd_subject) simp
  qed
  with r show ?thesis
    by (auto simp: continue_call_def split: option.splits sum.splits prod.splits)
qed

lemma routes_continue_inherited: "routes s \<Longrightarrow> routes (continue_inherited c v s)"
proof -
  assume r: "routes s"
  have "routes (upd_subject sid (\<lambda>x. x\<lparr>observer := StreamSub c\<rparr>) (upd_stream c f s'))"
    if "sendMessage m s = (sid, s')" for m sid s' f
  proof -
    have "routes s'" using routes_sendMessage [OF r, of m] that by simp
    then have "routes (upd_stream c f s')" by simp
    then show ?thesis by (rule routes_upd_subject) simp
  qed
  with r show ?thesis
    by (auto simp: continue_inherited_def split: option.splits sum.splits prod.splits)
qed

lemma routes_return_cached: "routes s \<Longrightarrow> routes (return_cached c v s)"
  by (simp add: return_cached_def routes_continue_call routes_continue_inherited
      split: option.splits)

lemma routes_ensure_controller: "ensure_controller controller s = Inr t \<Longrightarrow> routes t = routes s"
  by (auto simp: ensure_controller_def split: sum.splits if_splits)

lemma routes_store_types:
  "store_types controller actionName c types s = Inr t \<Longrightarrow> routes t = routes s"
  by (auto simp: store_types_def split: sum.splits)

lemma routes_loggedIn [simp]: "routes (s\<lparr>loggedIn := x\<rparr>) = routes s"
  by (simp add: routes_def)

lemma routes_resume_k: "routes s \<Longrightarrow> routes (resume_k k reply s)"
proof (cases k)
  case KCaller
  then show "routes s \<Longrightarrow> ?thesis" by simp
next
  case (KAuthenticate p)
  then show "routes s \<Longrightarrow> ?thesis"
    by (simp add: Let_def routes_open_done routes_settle_connection split: server_body.splits)
next
  case (KActionTypes controller actionName c)
  assume r: "routes s"
  have "routes (return_cached c v t)"
    if "store_types controller actionName c types s = Inr t" for types t v
    using routes_store_types [OF that] r by (simp add: routes_return_cached)
  moreover have "routes t"
    if "store_types controller actionName c types s = Inr t" for types t
    using routes_store_types [OF that] r by simp
  ultimately show ?thesis
    using KActionTypes r by (auto split: server_body.splits sum.splits)
qed

lemma routes_getActionTypes: "routes s \<Longrightarrow> routes (getActionTypes controller actionName c s)"
proof (cases "ensure_controller controller s")
  case (Inl e)
  then show "routes s \<Longrightarrow> ?thesis" by (simp add: getActionTypes_def)
next
  case (Inr t)
  assume "routes s"
  then have t: "routes t"
    using routes_ensure_controller [OF Inr] by simp
  have a: "routes (return_cached c v t)" for v
    using t by (rule routes_return_cached)
  have b: "routes (firstAndClose sid k s')" if "sendMessage m t = (sid, s')" for m sid s' k
    using t that by (rule routes_one_shot)
  show ?thesis
    using Inr t a b
    by (auto simp: getActionTypes_def Let_def split: sum.splits prod.splits)
qed

lemma routes_stream: "routes s \<Longrightarrow> routes (snd (stream controller name args s))"
proof -
  assume r: "routes s"
  obtain c s1 where nc: "new_call s = (c, s1)" by (cases "new_call s")
  have "routes s1" using routes_new_call [of s] r nc by simp
  then have "routes (getActionTypes controller name c (s1\<lparr>streams := x\<rparr>))" for x
    by (intro routes_getActionTypes) simp
  then show ?thesis
    by (simp add: stream_def Let_def nc)
qed

lemma routes_call_getActionTypes:
  "routes s \<Longrightarrow> routes (snd (call_getActionTypes controller actionName s))"
proof -
  assume r: "routes s"
  obtain c s1 where nc: "new_call s = (c, s1)" by (cases "new_call s")
  have "routes s1" using routes_new_call [of s] r nc by simp
  then have "routes (getActionTypes controller actionName c (s1\<lparr>streams := x\<rparr>))" for x
    by (intro routes_getActionTypes) simp
  then show ?thesis
    by (simp add: call_getActionTypes_def Let_def nc)
qed

lemma routes_call_connect [simp]: "routes (snd (call_connect s)) = routes s"
  by (simp add: call_connect_def split: prod.splits) (metis routes_new_call snd_conv)

lemma routes_subject_next:
  assumes "routes s" and "fst v = sid"
  shows "routes (subject_next sid v s)"
proof (cases "subjects s sid")
  case None
  then show ?thesis using assms by (simp add: subject_next_def)
next
  case (Some sub)
  let ?s1 = "upd_subject sid (\<lambda>x. x\<lparr>emitted := emitted x @ [v]\<rparr>) s"
  have s1: "routes ?s1" using assms by (rule routes_emit)
  show ?thesis
  proof (cases "isStopped sub")
    case True
    then show ?thesis using assms Some by (simp add: subject_next_def)
  next
    case False
    show ?thesis
    proof (cases "observer sub")
      case NoSubscriber
      then show ?thesis using Some False s1 by (simp add: subject_next_def Let_def)
    next
      case (FirstAndClose k)
      have "routes (upd_subject sid
               (\<lambda>x. x\<lparr>observer := NoSubscriber, promise := Some (Resolved (RReply v))\<rparr>) ?s1)"
        using s1 by (rule routes_upd_subject) simp
      then have "routes (resume_k k v (close sid (upd_subject sid
               (\<lambda>x. x\<lparr>observer := NoSubscriber, promise := Some (Resolved (RReply v))\<rparr>) ?s1)))"
        by (intro routes_resume_k routes_close)
      then show ?thesis using Some False FirstAndClose by (simp add: subject_next_def Let_def)
    next
      case (StreamSub c)
      have a: "routes (upd_subject sid (\<lambda>x. x\<lparr>observer := NoSubscriber\<rparr>) u)"
        if "stream_reply c v ?s1 = Inl (e, u)" for e u
        using routes_stream_reply_thrown [OF s1 that] by (rule routes_upd_subject) simp
      show ?thesis
        using Some False StreamSub a routes_stream_reply [OF s1]
        by (auto simp: subject_next_def Let_def split: sum.splits prod.splits)
    qed
  qed
qed

lemma routes_onMessage:
  assumes "routes s" and "onMessage ev s = Inr t"
  shows "routes t"
proof -
  have "replies s i = Some j \<Longrightarrow> j = i" for i j
    using assms(1) by (simp add: routes_def)
  then have "replies s (fst m) = Some j \<Longrightarrow> routes (subject_next j m s)" for m j
    using routes_subject_next [OF assms(1), of m "fst m"] by blast
  then show ?thesis
    using assms by (auto simp: onMessage_def split: option.splits if_splits)
qed

lemma routes_observable_subscribe [simp]: "routes (observable_subscribe c s) = routes s"
  by (auto simp: observable_subscribe_def Let_def dest: routes_send
      split: option.splits return_value.splits sum.splits)

lemma routes_observable_unsubscribe [simp]: "routes (observable_unsubscribe c i s) = routes s"
  by (auto simp: observable_unsubscribe_def Let_def dest: routes_send
      split: option.splits return_value.splits sum.splits)

lemma routes_collection_unsubscribe [simp]: "routes (collection_unsubscribe c s) = routes s"
  by (auto simp: collection_unsubscribe_def Let_def dest: routes_send
      split: option.splits return_value.splits sum.splits)

lemma routes_handle: "routes s \<Longrightarrow> routes (handle e s)"
proof (cases e)
  case (SocketMessage ev)
  then show "routes s \<Longrightarrow> ?thesis"
    by (auto split: sum.splits dest: routes_onMessage)
next
  case (Release n i)
  then show "routes s \<Longrightarrow> ?thesis"
    by (auto split: sum.splits dest: routes_release)
qed (simp_all add: routes_onopen routes_onerror routes_stream routes_call_getActionTypes)

lemma routes_step: "routes s \<Longrightarrow> routes (step e s)"
  by (simp add: step_def routes_handle)

lemma routes_run: "routes s \<Longrightarrow> routes (run es s)"
  unfolding run_def by (induction es arbitrary: s) (simp_all add: routes_step)

lemma routes_oneShot: "routes s \<Longrightarrow> routes (snd (oneShot m s))"
  by (auto simp: oneShot_def split: prod.splits intro: routes_one_shot)

lemma routes_issue: "routes s \<Longrightarrow> routes (snd (issue ms s))"
proof (induction ms arbitrary: s)
  case Nil
  then show ?case by simp
next
  case (Cons m ms)
  obtain sid t where o: "oneShot m s = (sid, t)" by (cases "oneShot m s")
  obtain sids u where i: "issue ms t = (sids, u)" by (cases "issue ms t")
  have "routes t" using routes_oneShot [OF Cons.prems, of m] o by simp
  then have "routes u" using Cons.IH [of t] i by simp
  then show ?case by (simp add: o i)
qed

lemma routes_deliver: "routes s \<Longrightarrow> routes (deliver fs s)"
  by (simp add: deliver_def routes_run)

section \<open>Claim C1: no cross-talk between one-shot calls\<close>

text \<open>
  C1. Let any number of one-shot calls be issued in one turn on a client in any state,
  before any reply arrives, and let \<open>sids\<close> be the identifiers allocated to them; they
  are pairwise distinct. When reply frames to these calls arrive in any order, also
  repeated, the subject of each call receives frames bearing its own identifier only,
  and the call resolves with the first frame that bears its identifier: it stays pending
  as long as no such frame has arrived, and no frame with another identifier ever
  reaches it. And whatever happens afterwards on a client whose routing was sound before
  the calls (any frames, socket events and further calls), no subject ever passes on a
  frame that bears another identifier than its own.
\<close>

theorem C1_each_call_gets_its_own_reply:
  assumes "issue ms s = (sids, s1)" and "sid \<in> set sids"
  shows "distinct sids
    \<and> ((\<forall>f \<in> set fs. fst f \<in> set sids \<and> \<not> entity_message (snd f) \<and> snd f \<noteq> Channel) \<longrightarrow>
         (\<exists>sub. subjects (deliver fs s1) sid = Some sub
            \<and> promise sub = map_option (\<lambda>f. Resolved (RReply f)) (find (\<lambda>f. fst f = sid) fs)
            \<and> emitted sub = (case find (\<lambda>f. fst f = sid) fs of None \<Rightarrow> [] | Some f \<Rightarrow> [f])
            \<and> (\<forall>f \<in> set (emitted sub). fst f = sid)))
    \<and> (routes s \<longrightarrow>
         (\<forall>es i sub. subjects (run es s1) i = Some sub \<longrightarrow> (\<forall>f \<in> set (emitted sub). fst f = i)))"
proof (intro conjI impI)
  show "distinct sids"
    using assms(1) by (rule issue_distinct)
next
  assume fs: "\<forall>f \<in> set fs. fst f \<in> set sids \<and> \<not> entity_message (snd f) \<and> snd f \<noteq> Channel"
  have start: "\<forall>i \<in> set sids. routed [] s1 i"
    using issue_pending [OF assms(1)] by (simp add: routed_def)
  have "\<forall>i \<in> set sids. routed ([] @ fs) (deliver fs s1) i"
    using fs start by (rule deliver_routes)
  then have r: "routed fs (deliver fs s1) sid"
    using assms(2) by simp
  show "\<exists>sub. subjects (deliver fs s1) sid = Some sub
            \<and> promise sub = map_option (\<lambda>f. Resolved (RReply f)) (find (\<lambda>f. fst f = sid) fs)
            \<and> emitted sub = (case find (\<lambda>f. fst f = sid) fs of None \<Rightarrow> [] | Some f \<Rightarrow> [f])
            \<and> (\<forall>f \<in> set (emitted sub). fst f = sid)"
  proof (cases "find (\<lambda>f. fst f = sid) fs")
    case None
    with r show ?thesis
      by (simp add: routed_def)
  next
    case (Some f)
    then have "fst f = sid"
      by (auto simp: find_Some_iff)
    with r Some show ?thesis
      by (simp add: routed_def)
  qed
next
  assume "routes s"
  then have "routes (snd (issue ms s))"
    by (rule routes_issue)
  then have "routes (run es s1)" for es
    using assms(1) by (simp add: routes_run)
  then show "\<forall>es i sub. subjects (run es s1) i = Some sub \<longrightarrow> (\<forall>f \<in> set (emitted sub). fst f = i)"
    unfolding routes_def by blast
qed

text \<open>Three calls on a fresh client; the replies arrive in the order 2, 3, 2, 1. And
  when a stray frame, a failure of the socket and a reply to call 1 arrive instead,
  the subject of call 2 has received nothing.\<close>

theorem C1_witness:
  "fst (issue [ActionTypes ''c'' ''a'', ActionTypes ''c'' ''b'', Authenticate None]
         (init None [])) = [1, 2, 3]
   \<and> (\<exists>sub. subjects
         (deliver [(2, OtherFrame ''two''), (3, AuthenticateResult True),
                   (2, OtherFrame ''again''), (1, ErrorFrame ''one'')]
            (snd (issue [ActionTypes ''c'' ''a'', ActionTypes ''c'' ''b'', Authenticate None]
                    (init None [])))) 2 = Some sub
       \<and> promise sub = Some (Resolved (RReply (2, OtherFrame ''two'')))
       \<and> emitted sub = [(2, OtherFrame ''two'')])
   \<and> (\<exists>sub. subjects
         (run [SocketMessage (Some (7, Complete)), SocketError 0,
               SocketMessage (Some (1, NextJson (Plain ''x'')))]
            (snd (issue [ActionTypes ''c'' ''a'', ActionTypes ''c'' ''b'', Authenticate None]
                    (init None [])))) 2 = Some sub
       \<and> list_all (\<lambda>f. fst f = 2) (emitted sub))"
proof -
  let ?ms = "[ActionTypes ''c'' ''a'', ActionTypes ''c'' ''b'', Authenticate None]"
  let ?fs = "[(2, OtherFrame ''two''), (3, AuthenticateResult True),
              (2, OtherFrame ''again''), (1, ErrorFrame ''one'')]"
  let ?es = "[SocketMessage (Some (7, Complete)), SocketError 0,
              SocketMessage (Some (1, NextJson (Plain ''x'')))]"
  have ids: "fst (issue ?ms (init None [])) = [1, 2, 3]"
    by code_simp
  have a: "issue ?ms (init None []) = ([1, 2, 3], snd (issue ?ms (init None [])))"
    using ids by (metis prod.collapse)
  have b: "\<forall>f \<in> set ?fs. fst f \<in> set [1, 2, 3::nat] \<and> \<not> entity_message (snd f) \<and> snd f \<noteq> Channel"
    by simp
  have c: "(2::nat) \<in> set [1, 2, 3]" by simp
  have d: "find (\<lambda>f. fst f = (2::nat)) ?fs = Some (2, OtherFrame ''two'')"
    by simp
  have e: "map_option teardown (subjects (run ?es (snd (issue ?ms (init None [])))) 2) = Some 2"
    by code_simp
  then obtain sub where sub: "subjects (run ?es (snd (issue ?ms (init None [])))) 2 = Some sub"
    by auto
  note inst = C1_each_call_gets_its_own_reply [OF a c, of ?fs]
  have first: "\<exists>sub. subjects (deliver ?fs (snd (issue ?ms (init None [])))) 2 = Some sub
       \<and> promise sub = Some (Resolved (RReply (2, OtherFrame ''two'')))
       \<and> emitted sub = [(2, OtherFrame ''two'')]"
    using inst b unfolding d by (auto simp del: issue.simps)
  have "\<forall>f \<in> set (emitted sub). fst f = 2"
    using inst routes_init [of None "[]"] sub by blast
  then have "list_all (\<lambda>f. fst f = 2) (emitted sub)"
    by (simp add: list_all_iff)
  with sub have second: "\<exists>sub. subjects (run ?es (snd (issue ?ms (init None [])))) 2 = Some sub
       \<and> list_all (\<lambda>f. fst f = 2) (emitted sub)"
    by blast
  from ids first second show ?thesis
    by (intro conjI)
qed

end
